(* ===== verification/Rust_Str.thy ===== *)
theory Rust_Str
  imports Prelude "HOL-Library.Char_ord" "HOL-Library.List_Lexorder"
begin

text \<open>
  The operations of Rust's \<open>str\<close> that rustern uses.  A \<open>str\<close> is its UTF-8 byte sequence, a
  list of \<open>char\<close> (Isabelle's \<open>char\<close> is a byte); comparison is byte-lexicographic, which is the
  order \<open>String: Ord\<close> has (\<open>HOL-Library.List_Lexorder\<close>).  ASCII case folding, Unicode trimming,
  splitting and joining, UTF-8 validation and the replacement of invalid sequences follow
  the documentation of the standard library.
\<close>

section \<open>ASCII case\<close>

definition byte_of :: "char \<Rightarrow> nat" where
  "byte_of c = of_char c"

definition ascii_lower :: "char \<Rightarrow> char" where
  "ascii_lower c = (if 65 \<le> byte_of c \<and> byte_of c \<le> 90 then char_of (byte_of c + 32) else c)"

definition to_ascii_lowercase :: "string \<Rightarrow> string" where
  "to_ascii_lowercase s = map ascii_lower s"

definition eq_ignore_ascii_case :: "string \<Rightarrow> string \<Rightarrow> bool" where
  "eq_ignore_ascii_case a b \<longleftrightarrow> to_ascii_lowercase a = to_ascii_lowercase b"

lemma byte_of_less: "byte_of c < 256"
  using range_nat_of_char by (auto simp: byte_of_def)

lemma byte_of_char_of: "n < 256 \<Longrightarrow> byte_of (char_of n) = n"
  by (simp add: byte_of_def)

lemma ascii_lower_idem [simp]: "ascii_lower (ascii_lower c) = ascii_lower c"
  by (auto simp: ascii_lower_def byte_of_char_of)

lemma to_ascii_lowercase_idem [simp]:
  "to_ascii_lowercase (to_ascii_lowercase s) = to_ascii_lowercase s"
  by (simp add: to_ascii_lowercase_def comp_def)

lemma eq_ignore_ascii_case_refl [simp]: "eq_ignore_ascii_case s s"
  by (simp add: eq_ignore_ascii_case_def)

lemma eq_ignore_ascii_case_sym: "eq_ignore_ascii_case a b \<longleftrightarrow> eq_ignore_ascii_case b a"
  by (auto simp: eq_ignore_ascii_case_def)

lemma eq_ignore_ascii_case_lower [simp]:
  "eq_ignore_ascii_case (to_ascii_lowercase a) b = eq_ignore_ascii_case a b"
  "eq_ignore_ascii_case a (to_ascii_lowercase b) = eq_ignore_ascii_case a b"
  by (simp_all add: eq_ignore_ascii_case_def)

lemma eq_ignore_ascii_case_lit:
  "to_ascii_lowercase b = b \<Longrightarrow> eq_ignore_ascii_case a b \<longleftrightarrow> to_ascii_lowercase a = b"
  by (simp add: eq_ignore_ascii_case_def)

section \<open>Trimming\<close>

text \<open>
  The UTF-8 encodings of the 25 code points with the Unicode property \<open>White_Space\<close>, which
  is what \<open>str::trim\<close> removes.
\<close>

definition ws_seqs :: "string list" where
  "ws_seqs =
     [[CHR 0x20], [CHR 0x09], [CHR 0x0A], [CHR 0x0B], [CHR 0x0C], [CHR 0x0D],
      [CHR 0xC2, CHR 0x85], [CHR 0xC2, CHR 0xA0],
      [CHR 0xE1, CHR 0x9A, CHR 0x80],
      [CHR 0xE2, CHR 0x80, CHR 0x80], [CHR 0xE2, CHR 0x80, CHR 0x81],
      [CHR 0xE2, CHR 0x80, CHR 0x82], [CHR 0xE2, CHR 0x80, CHR 0x83],
      [CHR 0xE2, CHR 0x80, CHR 0x84], [CHR 0xE2, CHR 0x80, CHR 0x85],
      [CHR 0xE2, CHR 0x80, CHR 0x86], [CHR 0xE2, CHR 0x80, CHR 0x87],
      [CHR 0xE2, CHR 0x80, CHR 0x88], [CHR 0xE2, CHR 0x80, CHR 0x89],
      [CHR 0xE2, CHR 0x80, CHR 0x8A], [CHR 0xE2, CHR 0x80, CHR 0xA8],
      [CHR 0xE2, CHR 0x80, CHR 0xA9], [CHR 0xE2, CHR 0x80, CHR 0xAF],
      [CHR 0xE2, CHR 0x81, CHR 0x9F], [CHR 0xE3, CHR 0x80, CHR 0x80]]"

definition head_len :: "string list \<Rightarrow> string \<Rightarrow> nat" where
  "head_len ws s =
     (case find (\<lambda>w. w \<noteq> [] \<and> take (length w) s = w) ws of None \<Rightarrow> 0 | Some w \<Rightarrow> length w)"

lemma head_len_le: "head_len ws s \<le> length s"
proof (cases "find (\<lambda>w. w \<noteq> [] \<and> take (length w) s = w) ws")
  case None
  then show ?thesis by (simp add: head_len_def)
next
  case (Some w)
  then have "take (length w) s = w" by (auto dest: find_Some_memD)
  then have "length w \<le> length s" by (metis length_take min.cobounded1)
  with Some show ?thesis by (simp add: head_len_def)
qed

function strip_start :: "string list \<Rightarrow> string \<Rightarrow> string" where
  "strip_start ws s = (if head_len ws s = 0 then s else strip_start ws (drop (head_len ws s) s))"
  by pat_completeness auto
termination
proof (relation "measure (\<lambda>(ws, s). length s)")
  fix ws s
  assume "head_len ws s \<noteq> 0"
  with head_len_le [of ws s] show "((ws, drop (head_len ws s) s), ws, s) \<in> measure (\<lambda>(ws, s). length s)"
    by auto
qed simp

declare strip_start.simps [simp del]

definition trim_start :: "string \<Rightarrow> string" where
  "trim_start s = strip_start ws_seqs s"

definition trim_end :: "string \<Rightarrow> string" where
  "trim_end s = rev (strip_start (map rev ws_seqs) (rev s))"

definition trim :: "string \<Rightarrow> string" where
  "trim s = trim_end (trim_start s)"

lemma strip_start_stop: "head_len ws s = 0 \<Longrightarrow> strip_start ws s = s"
  by (simp add: strip_start.simps)

lemma strip_start_head_len: "head_len ws (strip_start ws s) = 0"
proof (induction ws s rule: strip_start.induct)
  case (1 ws s)
  then show ?case
    by (cases "head_len ws s = 0") (simp_all add: strip_start.simps [of ws s])
qed

lemma strip_start_idem [simp]: "strip_start ws (strip_start ws s) = strip_start ws s"
  by (rule strip_start_stop) (rule strip_start_head_len)

lemma strip_start_suffix: "\<exists>p. s = p @ strip_start ws s"
proof (induction ws s rule: strip_start.induct)
  case (1 ws s)
  show ?case
  proof (cases "head_len ws s = 0")
    case True
    then show ?thesis by (simp add: strip_start.simps [of ws s])
  next
    case False
    with 1 obtain p where "drop (head_len ws s) s = p @ strip_start ws (drop (head_len ws s) s)"
      by blast
    then have "s = (take (head_len ws s) s @ p) @ strip_start ws (drop (head_len ws s) s)"
      by (metis append.assoc append_take_drop_id)
    with False show ?thesis by (metis strip_start.simps)
  qed
qed

lemma trim_start_idem [simp]: "trim_start (trim_start s) = trim_start s"
  by (simp add: trim_start_def)

lemma trim_end_idem [simp]: "trim_end (trim_end s) = trim_end s"
  by (simp add: trim_end_def)

lemma trim_infix: "\<exists>p q. s = p @ trim s @ q"
proof -
  obtain p where p: "s = p @ trim_start s"
    using strip_start_suffix by (auto simp: trim_start_def)
  obtain q where "rev (trim_start s) = q @ strip_start (map rev ws_seqs) (rev (trim_start s))"
    using strip_start_suffix by blast
  then have "trim_start s = trim s @ rev q"
    unfolding trim_def trim_end_def by (metis rev_append rev_rev_ident)
  with p show ?thesis by metis
qed

lemma set_trim: "set (trim s) \<subseteq> set s"
proof -
  obtain p q where "s = p @ trim s @ q" using trim_infix by blast
  then have "set s = set p \<union> set (trim s) \<union> set q" by (metis set_append Un_assoc)
  then show ?thesis by blast
qed

section \<open>Splitting and joining\<close>

fun split_on :: "char \<Rightarrow> string \<Rightarrow> string list" where
  "split_on c [] = [[]]"
| "split_on c (x # xs) =
     (if x = c then [] # split_on c xs
      else (case split_on c xs of [] \<Rightarrow> [[x]] | y # ys \<Rightarrow> (x # y) # ys))"

definition split_once :: "char \<Rightarrow> string \<Rightarrow> (string \<times> string) option" where
  "split_once c s =
     (if c \<in> set s then Some (takeWhile (\<lambda>x. x \<noteq> c) s, tl (dropWhile (\<lambda>x. x \<noteq> c) s)) else None)"

fun join :: "string \<Rightarrow> string list \<Rightarrow> string" where
  "join sep [] = []"
| "join sep [x] = x"
| "join sep (x # y # ys) = x @ sep @ join sep (y # ys)"

lemma split_on_ne [simp]: "split_on c s \<noteq> []"
  by (induction s) (auto split: list.splits)

lemma join_cons: "xs \<noteq> [] \<Longrightarrow> join sep (x # xs) = x @ sep @ join sep xs"
  by (cases xs) auto

lemma join_head: "join sep ((x # y) # ys) = x # join sep (y # ys)"
  by (cases ys) auto

lemma join_split_on: "join [c] (split_on c s) = s"
proof (induction s)
  case Nil
  show ?case by simp
next
  case (Cons x xs)
  show ?case
  proof (cases "split_on c xs")
    case Nil
    then show ?thesis by simp
  next
    case (Cons y ys)
    with Cons.IH show ?thesis by (simp add: join_head)
  qed
qed

lemma split_on_no_sep: "p \<in> set (split_on c s) \<Longrightarrow> c \<notin> set p"
proof (induction s arbitrary: p)
  case Nil
  then show ?case by simp
next
  case (Cons x xs)
  then show ?case by (cases "split_on c xs") (auto split: if_splits)
qed

lemma split_on_free: "c \<notin> set s \<Longrightarrow> split_on c s = [s]"
  by (induction s) auto

lemma split_on_append_sep:
  "c \<notin> set p \<Longrightarrow> split_on c (p @ c # s) = p # split_on c s"
  by (induction p) auto

lemma split_on_join:
  "ps \<noteq> [] \<Longrightarrow> \<forall>p\<in>set ps. c \<notin> set p \<Longrightarrow> split_on c (join [c] ps) = ps"
  by (induction "[c]" ps rule: join.induct) (auto simp: split_on_free split_on_append_sep)

lemma split_once_Some:
  "split_once c s = Some (a, b) \<longleftrightarrow> s = a @ c # b \<and> c \<notin> set a"
proof
  assume "split_once c s = Some (a, b)"
  then have c: "c \<in> set s" and a: "a = takeWhile (\<lambda>x. x \<noteq> c) s"
    and b: "b = tl (dropWhile (\<lambda>x. x \<noteq> c) s)"
    by (auto simp: split_once_def split: if_splits)
  from c have "dropWhile (\<lambda>x. x \<noteq> c) s \<noteq> []" by auto
  then have "dropWhile (\<lambda>x. x \<noteq> c) s = c # b"
    using hd_dropWhile [of "\<lambda>x. x \<noteq> c" s] b by (metis list.collapse)
  with a show "s = a @ c # b \<and> c \<notin> set a"
    by (metis set_takeWhileD takeWhile_dropWhile_id)
next
  assume "s = a @ c # b \<and> c \<notin> set a"
  then show "split_once c s = Some (a, b)"
    by (auto simp: split_once_def takeWhile_append dropWhile_append)
qed

lemma split_once_None [simp]: "split_once c s = None \<longleftrightarrow> c \<notin> set s"
  by (simp add: split_once_def)

text \<open>\<open>str::replace\<close> of a one-byte pattern.\<close>

definition replace_char :: "char \<Rightarrow> string \<Rightarrow> string \<Rightarrow> string" where
  "replace_char c r s = concat (map (\<lambda>x. if x = c then r else [x]) s)"

lemma replace_char_free: "c \<notin> set s \<Longrightarrow> replace_char c r s = s"
  by (induction s) (auto simp: replace_char_def)

section \<open>UTF-8\<close>

definition is_cont :: "char \<Rightarrow> bool" where
  "is_cont c \<longleftrightarrow> 128 \<le> byte_of c \<and> byte_of c \<le> 191"

definition at_is :: "(char \<Rightarrow> bool) \<Rightarrow> string \<Rightarrow> nat \<Rightarrow> bool" where
  "at_is P s i \<longleftrightarrow> i < length s \<and> P (s ! i)"

definition second_of_3 :: "nat \<Rightarrow> char \<Rightarrow> bool" where
  "second_of_3 b c \<longleftrightarrow>
     (if b = 224 then 160 \<le> byte_of c \<and> byte_of c \<le> 191
      else if b = 237 then 128 \<le> byte_of c \<and> byte_of c \<le> 159
      else is_cont c)"

definition second_of_4 :: "nat \<Rightarrow> char \<Rightarrow> bool" where
  "second_of_4 b c \<longleftrightarrow>
     (if b = 240 then 144 \<le> byte_of c \<and> byte_of c \<le> 191
      else if b = 244 then 128 \<le> byte_of c \<and> byte_of c \<le> 143
      else is_cont c)"

text \<open>
  One step of the decoder: \<open>(True, n)\<close> is a well-formed sequence of \<open>n\<close> bytes at the head,
  \<open>(False, n)\<close> a maximal ill-formed prefix of \<open>n\<close> bytes (the unit that one replacement
  character stands for).
\<close>

fun utf8_step :: "string \<Rightarrow> bool \<times> nat" where
  "utf8_step [] = (True, 0)"
| "utf8_step (c # cs) =
     (let b = byte_of c in
      if b < 128 then (True, 1)
      else if 194 \<le> b \<and> b \<le> 223 then
        (if at_is is_cont cs 0 then (True, 2) else (False, 1))
      else if 224 \<le> b \<and> b \<le> 239 then
        (if \<not> at_is (second_of_3 b) cs 0 then (False, 1)
         else if \<not> at_is is_cont cs 1 then (False, 2) else (True, 3))
      else if 240 \<le> b \<and> b \<le> 244 then
        (if \<not> at_is (second_of_4 b) cs 0 then (False, 1)
         else if \<not> at_is is_cont cs 1 then (False, 2)
         else if \<not> at_is is_cont cs 2 then (False, 3) else (True, 4))
      else (False, 1))"

lemma utf8_step_bounds:
  "s \<noteq> [] \<Longrightarrow> utf8_step s = (ok, n) \<Longrightarrow> 1 \<le> n \<and> n \<le> length s"
  by (cases s; cases "tl s"; cases "tl (tl s)")
    (auto simp: Let_def at_is_def Suc_le_eq split: if_splits)

text \<open>A well-formed head does not depend on what follows it.\<close>

lemma utf8_step_take:
  assumes "utf8_step s = (True, n)" and "s \<noteq> []"
  shows "utf8_step (take n s @ t) = (True, n)"
proof -
  from assms have n: "1 \<le> n" "n \<le> length s"
    using utf8_step_bounds by blast+
  obtain c cs where s: "s = c # cs" using assms(2) by (cases s) auto
  obtain m where m: "n = Suc m" using n(1) by (cases n) auto
  have at: "at_is P cs i \<Longrightarrow> i < m \<Longrightarrow> at_is P (take m cs @ t) i" for P i
    by (auto simp: at_is_def nth_append)
  show ?thesis
    using assms(1) at unfolding s m
    by (auto simp: Let_def split: if_splits)
qed

function utf8_valid :: "string \<Rightarrow> bool" where
  "utf8_valid s =
     (if s = [] then True else fst (utf8_step s) \<and> utf8_valid (drop (snd (utf8_step s)) s))"
  by pat_completeness auto
termination
proof (relation "measure length")
  fix s :: string
  assume "s \<noteq> []"
  with utf8_step_bounds [of s] show "(drop (snd (utf8_step s)) s, s) \<in> measure length"
    by (cases "utf8_step s") auto
qed simp

declare utf8_valid.simps [simp del]

definition utf8_replacement :: string where
  "utf8_replacement = [CHR 0xEF, CHR 0xBF, CHR 0xBD]"

function from_utf8_lossy :: "string \<Rightarrow> string" where
  "from_utf8_lossy s =
     (if s = [] then []
      else (if fst (utf8_step s) then take (snd (utf8_step s)) s else utf8_replacement)
           @ from_utf8_lossy (drop (snd (utf8_step s)) s))"
  by pat_completeness auto
termination
proof (relation "measure length")
  fix s :: string
  assume "s \<noteq> []"
  with utf8_step_bounds [of s] show "(drop (snd (utf8_step s)) s, s) \<in> measure length"
    by (cases "utf8_step s") auto
qed simp

declare from_utf8_lossy.simps [simp del]

definition from_utf8 :: "string \<Rightarrow> string option" where
  "from_utf8 s = (if utf8_valid s then Some s else None)"

lemma utf8_valid_Nil [simp]: "utf8_valid []"
  by (simp add: utf8_valid.simps)

lemma utf8_valid_step_append:
  assumes "utf8_step s = (True, n)" "s \<noteq> []" "utf8_valid t"
  shows "utf8_valid (take n s @ t)"
proof -
  have n: "1 \<le> n" "n \<le> length s" using utf8_step_bounds [OF assms(2,1)] by auto
  with assms(2) have ne: "take n s @ t \<noteq> []" by auto
  have "drop n (take n s @ t) = t" using n by simp
  with ne assms(3) utf8_step_take [OF assms(1,2), of t] show ?thesis
    by (subst utf8_valid.simps) simp
qed

lemma utf8_replacement_step: "utf8_step (utf8_replacement @ t) = (True, 3)"
  by (simp add: utf8_replacement_def byte_of_def at_is_def second_of_3_def is_cont_def)

lemma utf8_valid_replacement_append: "utf8_valid t \<Longrightarrow> utf8_valid (utf8_replacement @ t)"
  using utf8_valid_step_append [of utf8_replacement 3 t] utf8_replacement_step [of "[]"]
  by (simp add: utf8_replacement_def)

lemma from_utf8_lossy_valid: "utf8_valid (from_utf8_lossy s)"
proof (induction s rule: from_utf8_lossy.induct)
  case (1 s)
  show ?case
  proof (cases "s = []")
    case True
    then show ?thesis by (simp add: from_utf8_lossy.simps)
  next
    case False
    with 1 have IH: "utf8_valid (from_utf8_lossy (drop (snd (utf8_step s)) s))" by simp
    show ?thesis
    proof (cases "fst (utf8_step s)")
      case True
      then have "utf8_step s = (True, snd (utf8_step s))" by (metis prod.collapse)
      then have "utf8_valid (take (snd (utf8_step s)) s
          @ from_utf8_lossy (drop (snd (utf8_step s)) s))"
        using \<open>s \<noteq> []\<close> IH by (rule utf8_valid_step_append)
      with True \<open>s \<noteq> []\<close> show ?thesis by (subst from_utf8_lossy.simps) simp
    next
      case False
      with IH \<open>s \<noteq> []\<close> show ?thesis
        by (subst from_utf8_lossy.simps) (simp add: utf8_valid_replacement_append)
    qed
  qed
qed

lemma from_utf8_lossy_id: "utf8_valid s \<Longrightarrow> from_utf8_lossy s = s"
proof (induction s rule: from_utf8_lossy.induct)
  case (1 s)
  show ?case
  proof (cases "s = []")
    case True
    then show ?thesis by (simp add: from_utf8_lossy.simps)
  next
    case False
    from False 1(2) have "fst (utf8_step s)" "utf8_valid (drop (snd (utf8_step s)) s)"
      by (simp_all add: utf8_valid.simps [of s])
    with False 1(1) have "from_utf8_lossy (drop (snd (utf8_step s)) s) = drop (snd (utf8_step s)) s"
      by blast
    with False \<open>fst (utf8_step s)\<close> show ?thesis
      by (subst from_utf8_lossy.simps) simp
  qed
qed

lemma from_utf8_lossy_idem [simp]: "from_utf8_lossy (from_utf8_lossy s) = from_utf8_lossy s"
  by (rule from_utf8_lossy_id) (rule from_utf8_lossy_valid)

section \<open>Decimal display of unsigned integers\<close>

fun show_nat :: "nat \<Rightarrow> string" where
  "show_nat n =
     (if n < 10 then [char_of (48 + n)] else show_nat (n div 10) @ [char_of (48 + n mod 10)])"

declare show_nat.simps [simp del]

end
