(* ===== verification/Source.thy ===== *)
theory Source
  imports Rust_Str "HOL-Library.Word" "HOL-Library.Product_Lexorder"
begin

text \<open>
  The domain types of \<open>crates/rustern-core/src/source\<close>: log levels, stream keys and their
  metadata, log events and source errors (\<open>source/mod.rs\<close>), parsed JSON
  (\<open>source/parsed_json.rs\<close>), pod locators and metadata snapshots (\<open>source/pod_meta.rs\<close>), and
  the fields of the Kubernetes \<open>Pod\<close> object that rustern reads.  The theory also holds the
  total order on stream keys that \<open>discovery/pod_reconcile.rs\<close> sorts by.
\<close>

section \<open>Scalars\<close>

text \<open>
  A \<open>DateTime<Utc>\<close> is the number of nanoseconds since the Unix epoch.  A \<open>BTreeMap\<close> is its
  list of entries in key order.
\<close>

type_synonym timestamp = int
type_synonym u8 = "8 word"
type_synonym u32 = "32 word"
type_synonym u64 = "64 word"
type_synonym context_name = string
type_synonym labels = "(string \<times> string) list"

definition btree :: "(string \<times> 'v) list \<Rightarrow> bool" where
  "btree m \<longleftrightarrow> sorted_wrt (<) (map fst m)"

lemma btree_distinct: "btree m \<Longrightarrow> distinct (map fst m)"
  by (simp add: btree_def strict_sorted_iff)

section \<open>Log levels, errors and events\<close>

datatype source_kind = KPodLog | KEvent | KFile

datatype log_level = LError | LWarn | LInfo | LDebug | LTrace | LOther string

fun level_as_str :: "log_level \<Rightarrow> string" where
  "level_as_str LError = ''error''"
| "level_as_str LWarn = ''warn''"
| "level_as_str LInfo = ''info''"
| "level_as_str LDebug = ''debug''"
| "level_as_str LTrace = ''trace''"
| "level_as_str (LOther s) = s"

datatype log_source_error = Eof | Api string | Cancelled

fun log_source_error_display :: "log_source_error \<Rightarrow> string" where
  "log_source_error_display Eof = ''upstream stream ended''"
| "log_source_error_display (Api e) = ''api error: '' @ e"
| "log_source_error_display Cancelled = ''cancelled''"

text \<open>
  JSON values: \<open>serde_json::Value\<close> and \<open>jaq_json::Val\<close>.  Numbers are kept as an opaque token;
  no definition looks into them.  A jaq string is a text or a byte string, and the keys of
  a jaq object are values themselves.
\<close>

datatype json =
  JNull | JBool bool | JNumber string | JString string | JArray "json list"
| JObject "(string \<times> json) list"

datatype jval =
  VNull | VBool bool | VNum string | VTStr string | VBStr string | VArr "jval list"
| VObj "(jval \<times> jval) list"

datatype parsed_json = Serde json | Jaq jval

record source_meta =
  sm_context :: context_name
  sm_namespace :: string
  sm_pod :: string
  sm_container :: string
  sm_kind :: source_kind
  sm_node :: "string option"
  sm_labels :: labels
  sm_uid :: string
  sm_palette_index :: "u8 option"
  sm_container_palette_index :: "u8 option"

record log_event =
  ev_source :: source_meta
  ev_timestamp :: timestamp
  ev_message :: string
  ev_structured :: "parsed_json option"
  ev_level :: "log_level option"
  ev_palette_index :: "u8 option"
  ev_container_palette_index :: "u8 option"

type_synonym item = "log_source_error + log_event"

section \<open>Stream keys and their order\<close>

datatype source_key = SourceKey
  (sk_context: context_name) (sk_namespace: string) (sk_pod: string)
  (sk_container: string) (sk_uid: string)

text \<open>The comparison of \<open>sort_keys\<close>: context, namespace, pod, container, uid.\<close>

definition sort_key_tuple :: "source_key \<Rightarrow> string \<times> string \<times> string \<times> string \<times> string" where
  "sort_key_tuple k = (sk_context k, sk_namespace k, sk_pod k, sk_container k, sk_uid k)"

lemma sort_key_tuple_inject: "sort_key_tuple a = sort_key_tuple b \<Longrightarrow> a = b"
  by (simp add: sort_key_tuple_def source_key.expand)

instantiation source_key :: linorder
begin

definition less_eq_source_key :: "source_key \<Rightarrow> source_key \<Rightarrow> bool" where
  "less_eq_source_key a b \<longleftrightarrow> sort_key_tuple a \<le> sort_key_tuple b"

definition less_source_key :: "source_key \<Rightarrow> source_key \<Rightarrow> bool" where
  "less_source_key a b \<longleftrightarrow> sort_key_tuple a < sort_key_tuple b"

instance
proof
  fix x y z :: source_key
  show "(x < y) = (x \<le> y \<and> \<not> y \<le> x)"
    unfolding less_eq_source_key_def less_source_key_def by (rule less_le_not_le)
  show "x \<le> x" by (simp add: less_eq_source_key_def)
  show "x \<le> y \<Longrightarrow> y \<le> z \<Longrightarrow> x \<le> z"
    unfolding less_eq_source_key_def by (rule order_trans)
  show "x \<le> y \<Longrightarrow> y \<le> x \<Longrightarrow> x = y"
    unfolding less_eq_source_key_def by (intro sort_key_tuple_inject order_antisym)
  show "x \<le> y \<or> y \<le> x" by (simp add: less_eq_source_key_def linear)
qed

end

section \<open>Pods\<close>

text \<open>
  The fields of \<open>k8s_openapi::api::core::v1::Pod\<close> that the code reads.  Of a
  \<open>ContainerState\<close> only the presence of its three members matters.
\<close>

record container_state =
  cs_running :: bool
  cs_waiting :: bool
  cs_terminated :: bool

record container_status =
  cst_name :: string
  cst_state :: "container_state option"

record pod_condition =
  pc_type :: string
  pc_status :: string

record pod_spec =
  ps_containers :: "string list"
  ps_init_containers :: "string list option"
  ps_ephemeral_containers :: "string list option"
  ps_node_name :: "string option"

record pod_status =
  pst_container_statuses :: "container_status list option"
  pst_init_container_statuses :: "container_status list option"
  pst_ephemeral_container_statuses :: "container_status list option"
  pst_conditions :: "pod_condition list option"

record pod =
  md_name :: "string option"
  md_namespace :: "string option"
  md_uid :: "string option"
  md_labels :: "labels option"
  pod_spec :: "pod_spec option"
  pod_status :: "pod_status option"

text \<open>\<open>Option::unwrap_or\<close>, and \<open>unwrap_or_default\<close> of a string or a list.\<close>

definition unwrap_or :: "'a \<Rightarrow> 'a option \<Rightarrow> 'a" where
  "unwrap_or d x = (case x of None \<Rightarrow> d | Some y \<Rightarrow> y)"

lemma unwrap_or_simps [simp]: "unwrap_or d None = d" "unwrap_or d (Some y) = y"
  by (simp_all add: unwrap_or_def)

section \<open>Pod locators and metadata snapshots (\<open>source/pod_meta.rs\<close>)\<close>

record pod_meta_snapshot =
  snap_node :: "string option"
  snap_labels :: labels

definition pod_meta_default :: pod_meta_snapshot where
  "pod_meta_default = \<lparr>snap_node = None, snap_labels = []\<rparr>"

datatype pod_locator = PodLocator
  (loc_context: context_name) (loc_namespace: string) (loc_pod: string) (loc_uid: string)

definition from_source_key :: "source_key \<Rightarrow> pod_locator" where
  "from_source_key k = PodLocator (sk_context k) (sk_namespace k) (sk_pod k) (sk_uid k)"

definition try_from_pod :: "context_name \<Rightarrow> pod \<Rightarrow> pod_locator option" where
  "try_from_pod context p =
     (case md_uid p of None \<Rightarrow> None
      | Some uid \<Rightarrow> (case md_name p of None \<Rightarrow> None
      | Some pod_name \<Rightarrow> (case md_namespace p of None \<Rightarrow> None
      | Some namespace \<Rightarrow> Some (PodLocator context namespace pod_name uid))))"

definition pod_meta_snapshot_from_pod :: "pod \<Rightarrow> pod_meta_snapshot" where
  "pod_meta_snapshot_from_pod p =
     \<lparr>snap_node = (case pod_spec p of None \<Rightarrow> None | Some spec \<Rightarrow> ps_node_name spec),
      snap_labels = unwrap_or [] (md_labels p)\<rparr>"

lemma try_from_pod_Some_iff:
  "try_from_pod c p = Some l \<longleftrightarrow>
     md_uid p = Some (loc_uid l) \<and> md_name p = Some (loc_pod l)
     \<and> md_namespace p = Some (loc_namespace l) \<and> loc_context l = c"
  by (cases l) (auto simp: try_from_pod_def split: option.splits)

end
