(* ===== verification/Containers.thy ===== *)
theory Containers
  imports Source
begin

text \<open>
  \<open>discovery/container_keys.rs\<close> (which containers of a pod contribute log streams),
  \<open>discovery/pod_condition.rs\<close> (the \<open>--condition\<close> filter) and
  \<open>discovery/pod_reconcile.rs\<close> (the difference between the known and the wanted streams).
\<close>

section \<open>Container keys\<close>

datatype container_lifecycle_bucket = Running | Waiting | Terminated

datatype container_state_policy = PolicyAll | Subset "container_lifecycle_bucket set"

record container_discover_opts =
  cd_include_init_containers :: bool
  cd_include_ephemeral_containers :: bool
  cd_state_policy :: container_state_policy

definition container_discover_default :: container_discover_opts where
  "container_discover_default =
     \<lparr>cd_include_init_containers = True, cd_include_ephemeral_containers = True,
      cd_state_policy = PolicyAll\<rparr>"

datatype container_placement = Main | Init | Ephemeral

definition bucket :: "container_status option \<Rightarrow> container_lifecycle_bucket option" where
  "bucket cs =
     (case Option.bind cs cst_state of
        None \<Rightarrow> None
      | Some st \<Rightarrow>
          if cs_running st then Some Running
          else if cs_waiting st then Some Waiting
          else if cs_terminated st then Some Terminated
          else None)"

fun placement_statuses :: "container_placement \<Rightarrow> pod_status \<Rightarrow> container_status list option" where
  "placement_statuses Main st = pst_container_statuses st"
| "placement_statuses Init st = pst_init_container_statuses st"
| "placement_statuses Ephemeral st = pst_ephemeral_container_statuses st"

definition find_container_status ::
  "pod \<Rightarrow> container_placement \<Rightarrow> string \<Rightarrow> container_status option" where
  "find_container_status p placement name =
     Option.bind (pod_status p) (\<lambda>st.
       Option.bind (placement_statuses placement st) (\<lambda>maybe_list.
         find (\<lambda>cs. cst_name cs = name) maybe_list))"

definition accepts_by_placement ::
  "container_state_policy \<Rightarrow> pod \<Rightarrow> container_placement \<Rightarrow> string \<Rightarrow> bool" where
  "accepts_by_placement policy p placement name =
     (case policy of
        PolicyAll \<Rightarrow> True
      | Subset allowed \<Rightarrow>
          (case bucket (find_container_status p placement name) of
             Some b \<Rightarrow> b \<in> allowed
           | None \<Rightarrow> False))"

definition collect_candidates ::
  "pod \<Rightarrow> container_discover_opts \<Rightarrow> (string \<times> container_placement) list" where
  "collect_candidates p opts =
     (case pod_spec p of
        None \<Rightarrow> []
      | Some spec \<Rightarrow>
          map (\<lambda>c. (c, Main)) (ps_containers spec)
          @ (if cd_include_init_containers opts
             then map (\<lambda>c. (c, Init)) (unwrap_or [] (ps_init_containers spec)) else [])
          @ (if cd_include_ephemeral_containers opts
             then map (\<lambda>c. (c, Ephemeral)) (unwrap_or [] (ps_ephemeral_containers spec)) else []))"

definition keys_from_pod ::
  "pod \<Rightarrow> context_name \<Rightarrow> container_discover_opts \<Rightarrow> source_key list" where
  "keys_from_pod p context opts =
     (case md_uid p of
        None \<Rightarrow> []
      | Some uid \<Rightarrow>
          map (\<lambda>(container, _).
                 SourceKey context (unwrap_or [] (md_namespace p)) (unwrap_or [] (md_name p))
                   container uid)
            (filter (\<lambda>(nm, plc). accepts_by_placement (cd_state_policy opts) p plc nm)
               (collect_candidates p opts)))"

text \<open>The containers of a placement, as the specification lists them.\<close>

fun placement_containers :: "container_placement \<Rightarrow> pod_spec \<Rightarrow> string list" where
  "placement_containers Main spec = ps_containers spec"
| "placement_containers Init spec = unwrap_or [] (ps_init_containers spec)"
| "placement_containers Ephemeral spec = unwrap_or [] (ps_ephemeral_containers spec)"

fun placement_enabled :: "container_discover_opts \<Rightarrow> container_placement \<Rightarrow> bool" where
  "placement_enabled opts Main = True"
| "placement_enabled opts Init = cd_include_init_containers opts"
| "placement_enabled opts Ephemeral = cd_include_ephemeral_containers opts"

lemma collect_candidates_iff:
  "(c, plc) \<in> set (collect_candidates p opts) \<longleftrightarrow>
     (\<exists>spec. pod_spec p = Some spec \<and> placement_enabled opts plc \<and> c \<in> set (placement_containers plc spec))"
  by (cases "pod_spec p"; cases plc) (auto simp: collect_candidates_def)

text \<open>
  C18: a pod contributes exactly the streams it should: a key is among \<open>keys_from_pod\<close> iff
  the pod has a uid, the key carries the given context and the pod's namespace, name and
  uid, its container is listed in the spec under a placement that is enabled, and under a
  state filter the status reported for that container in that placement falls in an allowed
  bucket (an unknown status is not admitted).
\<close>

theorem keys_from_pod_iff:
  "k \<in> set (keys_from_pod p context opts) \<longleftrightarrow>
     md_uid p = Some (sk_uid k) \<and> sk_context k = context
     \<and> sk_namespace k = unwrap_or [] (md_namespace p) \<and> sk_pod k = unwrap_or [] (md_name p)
     \<and> (\<exists>spec plc. pod_spec p = Some spec \<and> placement_enabled opts plc
          \<and> sk_container k \<in> set (placement_containers plc spec)
          \<and> (case cd_state_policy opts of PolicyAll \<Rightarrow> True
              | Subset allowed \<Rightarrow>
                  \<exists>b \<in> allowed. bucket (find_container_status p plc (sk_container k)) = Some b))"
proof (cases "md_uid p")
  case None
  then show ?thesis by (simp add: keys_from_pod_def)
next
  case (Some uid)
  have acc: "accepts_by_placement (cd_state_policy opts) p plc c \<longleftrightarrow>
      (case cd_state_policy opts of PolicyAll \<Rightarrow> True
       | Subset allowed \<Rightarrow> \<exists>b \<in> allowed. bucket (find_container_status p plc c) = Some b)" for plc c
    by (auto simp: accepts_by_placement_def split: container_state_policy.splits option.splits)
  have "k \<in> set (keys_from_pod p context opts) \<longleftrightarrow>
      (\<exists>c plc. (c, plc) \<in> set (collect_candidates p opts)
         \<and> accepts_by_placement (cd_state_policy opts) p plc c
         \<and> k = SourceKey context (unwrap_or [] (md_namespace p)) (unwrap_or [] (md_name p)) c uid)"
    using Some by (auto simp: keys_from_pod_def)
  with Some show ?thesis
    unfolding acc collect_candidates_iff by (cases k) (auto cong: container_state_policy.case_cong)
qed

lemma keys_from_pod_fields:
  "k \<in> set (keys_from_pod p context opts) \<Longrightarrow>
   sk_context k = context \<and> sk_namespace k = unwrap_or [] (md_namespace p)
   \<and> sk_pod k = unwrap_or [] (md_name p) \<and> md_uid p = Some (sk_uid k)"
  by (auto simp: keys_from_pod_def split: option.splits)

section \<open>Pod conditions\<close>

record pod_condition_filter =
  pcf_type_name :: string
  pcf_status :: string

datatype parse_pod_condition_error = EmptyCondition | InvalidValue string

fun parse_pod_condition_error_display :: "parse_pod_condition_error \<Rightarrow> string" where
  "parse_pod_condition_error_display EmptyCondition = ''empty --condition''"
| "parse_pod_condition_error_display (InvalidValue v) =
     ''invalid condition value `'' @ v @ ''` (use true, false, or unknown)''"

definition normalize_condition_status :: "string \<Rightarrow> parse_pod_condition_error + string" where
  "normalize_condition_status value =
     (let v = to_ascii_lowercase value in
      if v = ''true'' then Inr ''True''
      else if v = ''false'' then Inr ''False''
      else if v = ''unknown'' then Inr ''Unknown''
      else Inl (InvalidValue v))"

definition parse_pod_condition :: "string \<Rightarrow> parse_pod_condition_error + pod_condition_filter" where
  "parse_pod_condition raw =
     (let trimmed = trim raw in
      if trimmed = [] then Inl EmptyCondition
      else
        (let (name, value) =
           (case split_once (CHR ''='') trimmed of
              Some (n, v) \<Rightarrow> (trim n, trim v)
            | None \<Rightarrow> (trimmed, ''true''))
         in if name = [] then Inl EmptyCondition
            else bind_result (normalize_condition_status value)
                   (\<lambda>status. Inr \<lparr>pcf_type_name = to_ascii_lowercase name, pcf_status = status\<rparr>)))"

definition missing_condition_matches :: "pod_condition_filter \<Rightarrow> bool" where
  "missing_condition_matches f \<longleftrightarrow>
     pcf_type_name f = ''ready'' \<and> eq_ignore_ascii_case (pcf_status f) ''False''"

fun condition_scan :: "pod_condition_filter \<Rightarrow> pod_condition list \<Rightarrow> bool" where
  "condition_scan f [] = missing_condition_matches f"
| "condition_scan f (c # cs) =
     (if eq_ignore_ascii_case (pc_type c) (pcf_type_name f)
      then eq_ignore_ascii_case (pc_status c) (pcf_status f)
      else condition_scan f cs)"

definition pod_matches_condition :: "pod \<Rightarrow> pod_condition_filter \<Rightarrow> bool" where
  "pod_matches_condition p f =
     (case pod_status p of
        None \<Rightarrow> False
      | Some status \<Rightarrow>
          (case pst_conditions status of
             None \<Rightarrow> missing_condition_matches f
           | Some conditions \<Rightarrow> condition_scan f conditions))"

lemma condition_scan_find:
  "condition_scan f cs =
     (case find (\<lambda>c. eq_ignore_ascii_case (pc_type c) (pcf_type_name f)) cs of
        None \<Rightarrow> missing_condition_matches f
      | Some c \<Rightarrow> eq_ignore_ascii_case (pc_status c) (pcf_status f))"
  by (induction cs) auto

lemma parse_pod_condition_Inr:
  assumes "parse_pod_condition raw = Inr f"
  shows "pcf_status f \<in> {''True'', ''False'', ''Unknown''}"
    and "\<exists>name. name \<noteq> [] \<and> set name \<subseteq> set raw \<and> pcf_type_name f = to_ascii_lowercase name"
proof -
  let ?nv = "case split_once (CHR ''='') (trim raw) of
      Some (n, v) \<Rightarrow> (trim n, trim v) | None \<Rightarrow> (trim raw, ''true'')"
  obtain name val where nv: "?nv = (name, val)" by (cases ?nv)
  with assms have name: "name \<noteq> []"
    and f: "bind_result (normalize_condition_status val)
        (\<lambda>status. Inr \<lparr>pcf_type_name = to_ascii_lowercase name, pcf_status = status\<rparr>) = Inr f"
    by (auto simp: parse_pod_condition_def Let_def split: if_splits)
  from f show "pcf_status f \<in> {''True'', ''False'', ''Unknown''}"
    by (auto simp: bind_result_Inr_iff normalize_condition_status_def Let_def split: if_splits)
  have "set name \<subseteq> set (trim raw)"
    using nv set_trim by (auto split: option.splits simp: split_once_Some) (use set_trim in fastforce)
  with name f set_trim [of raw]
  show "\<exists>name. name \<noteq> [] \<and> set name \<subseteq> set raw \<and> pcf_type_name f = to_ascii_lowercase name"
    by (intro exI [of _ name]) (auto simp: bind_result_Inr_iff)
qed

text \<open>
  C36: a parsed \<open>--condition\<close> filter decides pods as stern does: a pod without status never
  matches; otherwise the first condition of the filter's type, compared case-insensitively,
  decides by its status; and a pod that reports no such condition matches only the filter
  \<open>ready=false\<close>.
\<close>

theorem pod_matches_condition_exact:
  assumes "parse_pod_condition raw = Inr f"
  shows "pod_matches_condition p f \<longleftrightarrow>
     (\<exists>status. pod_status p = Some status
        \<and> (case find (\<lambda>c. eq_ignore_ascii_case (pc_type c) (pcf_type_name f))
                  (unwrap_or [] (pst_conditions status)) of
             Some c \<Rightarrow> to_ascii_lowercase (pc_status c) = to_ascii_lowercase (pcf_status f)
           | None \<Rightarrow> pcf_type_name f = ''ready'' \<and> pcf_status f = ''False''))"
proof -
  have "eq_ignore_ascii_case (pcf_status f) ''False'' \<longleftrightarrow> pcf_status f = ''False''"
    using parse_pod_condition_Inr(1) [OF assms]
    by (auto simp: eq_ignore_ascii_case_def to_ascii_lowercase_def ascii_lower_def byte_of_def)
  then have m: "missing_condition_matches f \<longleftrightarrow> pcf_type_name f = ''ready'' \<and> pcf_status f = ''False''"
    by (simp add: missing_condition_matches_def)
  show ?thesis
    by (auto simp: pod_matches_condition_def condition_scan_find m eq_ignore_ascii_case_def
        split: option.splits)
qed

theorem pod_matches_condition_exact_witness:
  "\<forall>p. pod_matches_condition p \<lparr>pcf_type_name = ''ready'', pcf_status = ''False''\<rparr> \<longleftrightarrow>
     (\<exists>status. pod_status p = Some status
        \<and> (case find (\<lambda>c. eq_ignore_ascii_case (pc_type c) ''ready'')
                  (unwrap_or [] (pst_conditions status)) of
             Some c \<Rightarrow> to_ascii_lowercase (pc_status c) = ''false''
           | None \<Rightarrow> True))"
proof -
  have p: "parse_pod_condition '' Ready = false'' = Inr \<lparr>pcf_type_name = ''ready'', pcf_status = ''False''\<rparr>"
    by code_simp
  have l: "to_ascii_lowercase ''False'' = ''false''" by code_simp
  show ?thesis by (simp add: pod_matches_condition_exact [OF p] l cong: option.case_cong)
qed

section \<open>Reconciliation\<close>

record reconcile_diff =
  rd_to_add :: "source_key list"
  rd_to_drop :: "source_key list"

text \<open>
  \<open>sort_keys\<close> sorts by the order of \<open>Source\<close>.  A \<open>HashSet\<close> is a set; it is iterated in an
  unknown order, which sorting makes irrelevant (\<open>reconcile_any_order\<close>).
\<close>

definition sort_keys :: "source_key list \<Rightarrow> source_key list" where
  "sort_keys keys = sort keys"

definition reconcile :: "source_key set \<Rightarrow> source_key set \<Rightarrow> reconcile_diff" where
  "reconcile active snapshot =
     \<lparr>rd_to_add = sorted_list_of_set (snapshot - active),
      rd_to_drop = sorted_list_of_set (active - snapshot)\<rparr>"

lemma sort_keys_any_order:
  "distinct xs \<Longrightarrow> set xs = A \<Longrightarrow> sort_keys xs = sorted_list_of_set A"
  by (auto simp: sort_keys_def sorted_list_of_set_sort_remdups distinct_remdups_id)

text \<open>
  Whatever order the hash sets are iterated in, collecting the two differences and
  sorting them gives the lists of \<open>reconcile\<close>; they are strictly sorted, disjoint, and
  dropping the one and adding the other turns the active set into the snapshot.
\<close>

theorem reconcile_correct:
  assumes "finite active" and "finite snapshot"
    and "distinct ds" and "set ds = active - snapshot"
    and "distinct xs" and "set xs = snapshot - active"
  shows "reconcile active snapshot = \<lparr>rd_to_add = sort_keys xs, rd_to_drop = sort_keys ds\<rparr>
    \<and> sorted_wrt (<) (sort_keys xs) \<and> sorted_wrt (<) (sort_keys ds)
    \<and> set (rd_to_add (reconcile active snapshot)) \<inter> set (rd_to_drop (reconcile active snapshot)) = {}
    \<and> (active - set (rd_to_drop (reconcile active snapshot)))
        \<union> set (rd_to_add (reconcile active snapshot)) = snapshot"
  using assms
  by (auto simp: reconcile_def sort_keys_any_order)

theorem reconcile_correct_witness:
  "reconcile {SourceKey ''c'' ''n'' ''p'' ''a'' ''u'', SourceKey ''c'' ''n'' ''p'' ''b'' ''u''}
     {SourceKey ''c'' ''n'' ''p'' ''b'' ''u''}
   = \<lparr>rd_to_add = sort_keys [], rd_to_drop = sort_keys [SourceKey ''c'' ''n'' ''p'' ''a'' ''u'']\<rparr>"
proof -
  let ?a = "SourceKey ''c'' ''n'' ''p'' ''a'' ''u''" and ?b = "SourceKey ''c'' ''n'' ''p'' ''b'' ''u''"
  show ?thesis
    using reconcile_correct [of "{?a, ?b}" "{?b}" "[?a]" "[]"] by auto
qed

lemma reconcile_sets:
  assumes "finite active" and "finite snapshot"
  shows "set (rd_to_add (reconcile active snapshot)) = snapshot - active"
    and "set (rd_to_drop (reconcile active snapshot)) = active - snapshot"
    and "distinct (rd_to_add (reconcile active snapshot))"
    and "distinct (rd_to_drop (reconcile active snapshot))"
  using assms by (auto simp: reconcile_def)

end
