(* ===== verification/Parsed_Json.thy ===== *)
theory Parsed_Json
  imports Source
begin

text \<open>
  \<open>source/parsed_json.rs\<close>: looking a level string up by a dot path in a parsed log line,
  with or without the precomputed JSON pointer (serde) and key list (jaq).
  \<open>serde_json\<close> itself is a parameter: \<open>pointer\<close> is \<open>Value::pointer\<close>, \<open>of_text\<close> is
  \<open>serde_json::from_str\<close>, \<open>show\<close> is jaq's \<open>Display\<close>.
\<close>

section \<open>Paths\<close>

definition json_pointer_from_dot_path :: "string \<Rightarrow> string" where
  "json_pointer_from_dot_path path =
     (if path = [] then []
      else ''/'' @ join ''/'' (map (replace_char (CHR ''/'') ''~1'') (split_on (CHR ''.'') path)))"

definition jaq_dot_path_keys :: "string \<Rightarrow> jval list" where
  "jaq_dot_path_keys path = map VTStr (filter (\<lambda>seg. seg \<noteq> []) (split_on (CHR ''.'') path))"

fun val_dot_path_with_keys :: "jval \<Rightarrow> jval list \<Rightarrow> jval option" where
  "val_dot_path_with_keys v [] = Some v"
| "val_dot_path_with_keys v (k # ks) =
     (case v of
        VObj m \<Rightarrow> (case map_of m k of None \<Rightarrow> None | Some v' \<Rightarrow> val_dot_path_with_keys v' ks)
      | _ \<Rightarrow> None)"

fun val_dot_path_segments :: "jval \<Rightarrow> string list \<Rightarrow> jval option" where
  "val_dot_path_segments v [] = Some v"
| "val_dot_path_segments v (seg # segs) =
     (if seg = [] then val_dot_path_segments v segs
      else (case v of
              VObj m \<Rightarrow> (case map_of m (VTStr seg) of
                           None \<Rightarrow> None | Some v' \<Rightarrow> val_dot_path_segments v' segs)
            | _ \<Rightarrow> None))"

definition val_dot_path :: "jval \<Rightarrow> string \<Rightarrow> jval option" where
  "val_dot_path v path = val_dot_path_segments v (split_on (CHR ''.'') path)"

definition val_as_str :: "jval \<Rightarrow> string option" where
  "val_as_str v = (case v of VTStr b \<Rightarrow> from_utf8 b | _ \<Rightarrow> None)"

definition json_as_str :: "json \<Rightarrow> string option" where
  "json_as_str v = (case v of JString s \<Rightarrow> Some s | _ \<Rightarrow> None)"

section \<open>Level lookup\<close>

definition level_str_with_serde_pointer ::
  "(json \<Rightarrow> string \<Rightarrow> json option) \<Rightarrow> parsed_json \<Rightarrow> string \<Rightarrow> string option \<Rightarrow> jval list option
   \<Rightarrow> string option" where
  "level_str_with_serde_pointer pointer pj dot_path serde_pointer jaq_path_keys =
     (case pj of
        Serde v \<Rightarrow>
          (case serde_pointer of
             Some ptr \<Rightarrow> Option.bind (pointer v ptr) json_as_str
           | None \<Rightarrow> Option.bind (pointer v (json_pointer_from_dot_path dot_path)) json_as_str)
      | Jaq v \<Rightarrow>
          (case jaq_path_keys of
             Some keys \<Rightarrow> Option.bind (val_dot_path_with_keys v keys) val_as_str
           | None \<Rightarrow> Option.bind (val_dot_path v dot_path) val_as_str))"

definition level_str_at_dot_path ::
  "(json \<Rightarrow> string \<Rightarrow> json option) \<Rightarrow> parsed_json \<Rightarrow> string \<Rightarrow> string option" where
  "level_str_at_dot_path pointer pj dot_path =
     level_str_with_serde_pointer pointer pj dot_path None None"

section \<open>Conversions\<close>

definition to_serde_value :: "(string \<Rightarrow> json option) \<Rightarrow> (jval \<Rightarrow> string) \<Rightarrow> parsed_json \<Rightarrow> json" where
  "to_serde_value of_text show pj =
     (case pj of Serde v \<Rightarrow> v | Jaq v \<Rightarrow> unwrap_or JNull (of_text (show v)))"

definition to_jaq_val :: "(json \<Rightarrow> jval option) \<Rightarrow> parsed_json \<Rightarrow> jval option" where
  "to_jaq_val of_value pj = (case pj of Jaq v \<Rightarrow> Some v | Serde v \<Rightarrow> of_value v)"

section \<open>Precomputed keys\<close>

lemma val_dot_path_segments_keys:
  "val_dot_path_segments v segs =
     val_dot_path_with_keys v (map VTStr (filter (\<lambda>seg. seg \<noteq> []) segs))"
  by (induction v segs rule: val_dot_path_segments.induct) (auto split: jval.splits option.splits)

lemma val_dot_path_keys:
  "val_dot_path v path = val_dot_path_with_keys v (jaq_dot_path_keys path)"
  by (simp add: val_dot_path_def jaq_dot_path_keys_def val_dot_path_segments_keys)

text \<open>
  Looking a level up with the JSON pointer and key list that \<open>level_classify\<close> computes
  once per stream returns exactly what the per-event lookup by dot path returns, for every
  path, leading, doubled and trailing dots included.
\<close>

theorem precomputed_lookup_eq:
  "level_str_with_serde_pointer pointer pj path
     (Some (json_pointer_from_dot_path path)) (Some (jaq_dot_path_keys path))
   = level_str_at_dot_path pointer pj path"
  by (cases pj)
    (simp_all add: level_str_at_dot_path_def level_str_with_serde_pointer_def val_dot_path_keys)

section \<open>Pointer syntax\<close>

text \<open>
  The decoding RFC 6901 prescribes and \<open>Value::pointer\<close> documents: the reference tokens
  between slashes, with \<open>~1\<close> read as a slash and then \<open>~0\<close> as a tilde.
\<close>

fun replace_pair :: "char \<Rightarrow> char \<Rightarrow> char \<Rightarrow> string \<Rightarrow> string" where
  "replace_pair a b r (x # y # xs) =
     (if x = a \<and> y = b then r # replace_pair a b r xs else x # replace_pair a b r (y # xs))"
| "replace_pair a b r xs = xs"

definition pointer_unescape :: "string \<Rightarrow> string" where
  "pointer_unescape tok =
     replace_pair (CHR ''~'') (CHR ''0'') (CHR ''~'')
       (replace_pair (CHR ''~'') (CHR ''1'') (CHR ''/'') tok)"

definition pointer_tokens :: "string \<Rightarrow> string list" where
  "pointer_tokens ptr = map pointer_unescape (tl (split_on (CHR ''/'') ptr))"

lemma replace_pair_free: "a \<notin> set xs \<Longrightarrow> replace_pair a b r xs = xs"
  by (induction a b r xs rule: replace_pair.induct) auto

lemma replace_pair_Cons_neq: "x \<noteq> a \<Longrightarrow> replace_pair a b r (x # xs) = x # replace_pair a b r xs"
  by (cases xs) auto

lemma replace_pair_escape:
  "CHR ''~'' \<notin> set s \<Longrightarrow>
   replace_pair (CHR ''~'') (CHR ''1'') (CHR ''/'') (replace_char (CHR ''/'') ''~1'' s) = s"
  by (induction s) (auto simp: replace_char_def replace_pair_Cons_neq)

lemma pointer_unescape_escape:
  "CHR ''~'' \<notin> set s \<Longrightarrow> pointer_unescape (replace_char (CHR ''/'') ''~1'' s) = s"
  by (simp add: pointer_unescape_def replace_pair_escape replace_pair_free)

lemma replace_char_no_slash: "CHR ''/'' \<notin> set (replace_char (CHR ''/'') ''~1'' s)"
  by (auto simp: replace_char_def)

lemma set_split_on_subset: "p \<in> set (split_on c s) \<Longrightarrow> set p \<subseteq> set s"
proof (induction s arbitrary: p)
  case Nil
  then show ?case by simp
next
  case (Cons x xs)
  then show ?case by (cases "split_on c xs") (fastforce split: if_splits)+
qed

text \<open>
  On a path without a tilde the pointer that \<open>json_pointer_from_dot_path\<close> builds decodes
  to the segments of the dot path, slashes inside a segment included.
\<close>

theorem json_pointer_roundtrip:
  assumes "path \<noteq> []" and "CHR ''~'' \<notin> set path"
  shows "pointer_tokens (json_pointer_from_dot_path path) = split_on (CHR ''.'') path"
proof -
  let ?segs = "split_on (CHR ''.'') path"
  let ?esc = "replace_char (CHR ''/'') ''~1''"
  have "split_on (CHR ''/'') (join ''/'' (map ?esc ?segs)) = map ?esc ?segs"
    by (rule split_on_join) (auto simp: replace_char_no_slash)
  then have "pointer_tokens (json_pointer_from_dot_path path)
      = map (\<lambda>s. pointer_unescape (?esc s)) ?segs"
    using assms(1) by (simp add: pointer_tokens_def json_pointer_from_dot_path_def)
  also have "\<dots> = map (\<lambda>s. s) ?segs"
    using assms(2) set_split_on_subset by (intro map_cong refl pointer_unescape_escape) blast
  finally show ?thesis by simp
qed

theorem json_pointer_roundtrip_witness:
  "pointer_tokens (json_pointer_from_dot_path ''k8s.io/meta.level'') = [''k8s'', ''io/meta'', ''level'']"
proof -
  have "split_on (CHR ''.'') ''k8s.io/meta.level'' = [''k8s'', ''io/meta'', ''level'']" by simp
  then show ?thesis using json_pointer_roundtrip [of "''k8s.io/meta.level''"] by simp
qed

text \<open>
  A tilde is not escaped (\<open>~0\<close> in RFC 6901), so on such a key the serde lookup reads another
  key than the jaq lookup does.
\<close>

lemma json_pointer_tilde_not_escaped:
  "pointer_tokens (json_pointer_from_dot_path ''a~1b'') = [''a/b'']
   \<and> jaq_dot_path_keys ''a~1b'' = [VTStr ''a~1b'']"
  by (simp add: pointer_tokens_def pointer_unescape_def json_pointer_from_dot_path_def
      replace_char_def jaq_dot_path_keys_def)

end
