(* ===== verification/Stages.thy ===== *)
theory Stages
  imports Parsed_Json "HOL-Library.Sublist"
begin

text \<open>
  The line-stream transforms of \<open>crates/rustern-core/src/pipeline\<close>: \<open>include_exclude\<close>,
  \<open>json_annotate\<close>, \<open>level_classify\<close>, \<open>exit_watch_message\<close>, \<open>exit_watch_level\<close>,
  \<open>jq_evaluate\<close> and \<open>color_assign\<close>.  Every transform is a stage: from the shared exit-watch
  state and one item of the stream to the new state and the item passed on, if any.  A
  stream is run by pulling one item at a time through the stage (\<open>run_stage\<close>).

  Parameters: a compiled regex is its \<open>is_match\<close>; \<open>json_lib\<close> bundles the calls into
  serde and jaq; a compiled jq filter is the list of outcomes it yields; \<open>sea\<close> is SeaHasher.
\<close>

section \<open>Third-party functions the stages call\<close>

type_synonym regex = "string \<Rightarrow> bool"

record json_lib =
  jl_parse_val :: "string \<Rightarrow> jval option"
  jl_parse_value :: "string \<Rightarrow> json option"
  jl_pointer :: "json \<Rightarrow> string \<Rightarrow> json option"
  jl_of_value :: "json \<Rightarrow> jval option"
  jl_show :: "jval \<Rightarrow> string"

type_synonym jq_filter = "jval \<Rightarrow> (string + jval) list"

definition any_match :: "regex list \<Rightarrow> string \<Rightarrow> bool" where
  "any_match res msg \<longleftrightarrow> list_ex (\<lambda>re. re msg) res"

section \<open>Exit-watch state\<close>

record exit_watch =
  ew_triggered :: bool
  ew_cancelled :: bool

text \<open>\<open>triggered.swap(true)\<close>; the root token is cancelled by the first call only.\<close>

definition fire :: "exit_watch \<Rightarrow> exit_watch" where
  "fire w = (if \<not> ew_triggered w then w\<lparr>ew_triggered := True, ew_cancelled := True\<rparr> else w)"

lemma fire_idem [simp]: "fire (fire w) = fire w"
  by (simp add: fire_def)

lemma fire_triggered [simp]: "ew_triggered (fire w)"
  by (simp add: fire_def)

type_synonym stage = "exit_watch \<Rightarrow> item \<Rightarrow> exit_watch \<times> item option"

fun run_stage :: "stage \<Rightarrow> exit_watch \<Rightarrow> item list \<Rightarrow> exit_watch \<times> item list" where
  "run_stage st w [] = (w, [])"
| "run_stage st w (r # rs) =
     (case st w r of (w1, out) \<Rightarrow>
      (case run_stage st w1 rs of (w2, outs) \<Rightarrow>
        (w2, case out of None \<Rightarrow> outs | Some x \<Rightarrow> x # outs)))"

definition id_stage :: stage where
  "id_stage w r = (w, Some r)"

definition compose_stage :: "stage \<Rightarrow> stage \<Rightarrow> stage" where
  "compose_stage a b w r =
     (case a w r of
        (w1, None) \<Rightarrow> (w1, None)
      | (w1, Some x) \<Rightarrow> b w1 x)"

definition stage_when :: "bool \<Rightarrow> stage \<Rightarrow> stage" where
  "stage_when c st = (if c then st else id_stage)"

text \<open>The two shapes of \<open>inner.map(|r| r.map(f))\<close> and of a pass-through with a side effect.\<close>

definition map_ok_stage :: "(log_event \<Rightarrow> log_event) \<Rightarrow> stage" where
  "map_ok_stage f w r = (w, Some (case r of Inl e \<Rightarrow> Inl e | Inr ev \<Rightarrow> Inr (f ev)))"

definition watch_stage :: "(log_event \<Rightarrow> bool) \<Rightarrow> stage" where
  "watch_stage P w r =
     (case r of Inl e \<Rightarrow> (w, Some r) | Inr ev \<Rightarrow> (if P ev then fire w else w, Some r))"

section \<open>Include and exclude (\<open>include_exclude.rs\<close>)\<close>

datatype filter_on = Transformed | Original

definition keep_line :: "regex list \<Rightarrow> regex list \<Rightarrow> string \<Rightarrow> bool" where
  "keep_line includes excludes msg =
     (if includes \<noteq> [] then any_match includes msg else \<not> any_match excludes msg)"

definition include_exclude :: "regex list \<Rightarrow> regex list \<Rightarrow> stage" where
  "include_exclude includes excludes w r =
     (w, case r of
           Inl _ \<Rightarrow> Some r
         | Inr ev \<Rightarrow> if keep_line includes excludes (ev_message ev) then Some r else None)"

section \<open>JSON annotation (\<open>json_annotate.rs\<close>)\<close>

definition starts_with_brace :: "string \<Rightarrow> bool" where
  "starts_with_brace s = (case s of [] \<Rightarrow> False | c # _ \<Rightarrow> c = CHR ''{'')"

definition json_annotate_event :: "json_lib \<Rightarrow> bool \<Rightarrow> log_event \<Rightarrow> log_event" where
  "json_annotate_event lib use_jaq_val ev =
     (if \<not> starts_with_brace (trim_start (ev_message ev)) then ev
      else if use_jaq_val then
        (case jl_parse_val lib (ev_message ev) of
           Some v \<Rightarrow> ev\<lparr>ev_structured := Some (Jaq v)\<rparr> | None \<Rightarrow> ev)
      else
        (case jl_parse_value lib (ev_message ev) of
           Some v \<Rightarrow> ev\<lparr>ev_structured := Some (Serde v)\<rparr> | None \<Rightarrow> ev))"

definition json_annotate :: "json_lib \<Rightarrow> bool \<Rightarrow> stage" where
  "json_annotate lib use_jaq_val = map_ok_stage (json_annotate_event lib use_jaq_val)"

section \<open>Level classification (\<open>level_classify.rs\<close>)\<close>

definition classify_str :: "string \<Rightarrow> log_level" where
  "classify_str s =
     (if eq_ignore_ascii_case s ''error'' \<or> eq_ignore_ascii_case s ''err''
         \<or> eq_ignore_ascii_case s ''fatal'' then LError
      else if eq_ignore_ascii_case s ''warn'' \<or> eq_ignore_ascii_case s ''warning'' then LWarn
      else if eq_ignore_ascii_case s ''info'' then LInfo
      else if eq_ignore_ascii_case s ''debug'' then LDebug
      else if eq_ignore_ascii_case s ''trace'' then LTrace
      else LOther s)"

definition level_classify_event :: "json_lib \<Rightarrow> string option \<Rightarrow> log_event \<Rightarrow> log_event" where
  "level_classify_event lib level_key ev =
     (case level_key of
        None \<Rightarrow> ev
      | Some key \<Rightarrow>
          (case ev_structured ev of
             None \<Rightarrow> ev
           | Some parsed \<Rightarrow>
               (case level_str_with_serde_pointer (jl_pointer lib) parsed key
                       (Some (json_pointer_from_dot_path key)) (Some (jaq_dot_path_keys key)) of
                  Some lv \<Rightarrow> ev\<lparr>ev_level := Some (classify_str lv)\<rparr>
                | None \<Rightarrow> ev)))"

definition level_classify :: "json_lib \<Rightarrow> string option \<Rightarrow> stage" where
  "level_classify lib level_key = map_ok_stage (level_classify_event lib level_key)"

section \<open>Exit triggers (\<open>exit_watch.rs\<close>)\<close>

datatype exit_on_level = XTrace | XDebug | XInfo | XWarn | XError

definition parse_exit_on_level :: "string \<Rightarrow> string + exit_on_level" where
  "parse_exit_on_level raw =
     (let s = to_ascii_lowercase (trim raw) in
      if s = ''trace'' then Inr XTrace
      else if s = ''debug'' then Inr XDebug
      else if s = ''info'' then Inr XInfo
      else if s = ''warn'' \<or> s = ''warning'' then Inr XWarn
      else if s = ''error'' \<or> s = ''err'' \<or> s = ''fatal'' then Inr XError
      else if s = [] then Inl ''empty --exit-on-level''
      else Inl (''invalid --exit-on-level: '' @ s))"

fun rank :: "exit_on_level \<Rightarrow> nat" where
  "rank XTrace = 0"
| "rank XDebug = 1"
| "rank XInfo = 2"
| "rank XWarn = 3"
| "rank XError = 4"

fun event_level_rank :: "log_level \<Rightarrow> nat" where
  "event_level_rank LTrace = 0"
| "event_level_rank LDebug = 1"
| "event_level_rank LInfo = 2"
| "event_level_rank LWarn = 3"
| "event_level_rank LError = 4"
| "event_level_rank (LOther s) =
     (if eq_ignore_ascii_case s ''error'' \<or> eq_ignore_ascii_case s ''err''
         \<or> eq_ignore_ascii_case s ''fatal'' then 4
      else if eq_ignore_ascii_case s ''warn'' \<or> eq_ignore_ascii_case s ''warning'' then 3
      else if eq_ignore_ascii_case s ''info'' then 2
      else if eq_ignore_ascii_case s ''debug'' then 1
      else if eq_ignore_ascii_case s ''trace'' then 0
      else 2)"

lemma rank_inject: "rank a = rank b \<Longrightarrow> a = b"
  by (cases a; cases b) auto

instantiation exit_on_level :: linorder
begin

definition less_eq_exit_on_level :: "exit_on_level \<Rightarrow> exit_on_level \<Rightarrow> bool" where
  "less_eq_exit_on_level a b \<longleftrightarrow> rank a \<le> rank b"

definition less_exit_on_level :: "exit_on_level \<Rightarrow> exit_on_level \<Rightarrow> bool" where
  "less_exit_on_level a b \<longleftrightarrow> rank a < rank b"

instance
  by standard (auto simp: less_eq_exit_on_level_def less_exit_on_level_def intro: rank_inject)

end

definition message_fires :: "regex list \<Rightarrow> log_event \<Rightarrow> bool" where
  "message_fires patterns ev \<longleftrightarrow> any_match patterns (ev_message ev)"

definition level_fires :: "exit_on_level \<Rightarrow> log_event \<Rightarrow> bool" where
  "level_fires min_level ev \<longleftrightarrow>
     (case ev_level ev of None \<Rightarrow> False | Some lv \<Rightarrow> rank min_level \<le> event_level_rank lv)"

definition exit_watch_message :: "regex list \<Rightarrow> stage" where
  "exit_watch_message patterns = watch_stage (message_fires patterns)"

definition exit_watch_level :: "exit_on_level \<Rightarrow> stage" where
  "exit_watch_level min_level = watch_stage (level_fires min_level)"

section \<open>jq (\<open>jq_evaluate.rs\<close>)\<close>

datatype query_mode = Replace | Append | Filter

definition format_outputs_joined :: "(jval \<Rightarrow> string) \<Rightarrow> jval list \<Rightarrow> string" where
  "format_outputs_joined show outputs = join [CHR 0x0A] (map show outputs)"

definition val_is_truthy :: "jval \<Rightarrow> bool" where
  "val_is_truthy v = (case v of VNull \<Rightarrow> False | VBool b \<Rightarrow> b | _ \<Rightarrow> True)"

text \<open>The evaluation errors the filter yields are dropped, so the result is always \<open>Ok\<close>.\<close>

definition run_filter :: "jq_filter \<Rightarrow> jval \<Rightarrow> string + jval list" where
  "run_filter f v = Inr (List.map_filter (\<lambda>r. case r of Inl _ \<Rightarrow> None | Inr x \<Rightarrow> Some x) (f v))"

definition jq_evaluate_event ::
  "json_lib \<Rightarrow> jq_filter \<Rightarrow> query_mode \<Rightarrow> log_event \<Rightarrow> item option" where
  "jq_evaluate_event lib f mode ev =
     (case ev_structured ev of
        None \<Rightarrow> (if mode = Filter then None else Some (Inr ev))
      | Some parsed \<Rightarrow>
          (case to_jaq_val (jl_of_value lib) parsed of
             None \<Rightarrow> Some (Inr ev)
           | Some v \<Rightarrow>
               (case run_filter f v of
                  Inl e \<Rightarrow> Some (Inl (Api e))
                | Inr outputs \<Rightarrow>
                    (case mode of
                       Filter \<Rightarrow> if list_ex val_is_truthy outputs then Some (Inr ev) else None
                     | Replace \<Rightarrow>
                         Some (Inr (ev\<lparr>ev_structured := None,
                           ev_message := format_outputs_joined (jl_show lib) outputs\<rparr>))
                     | Append \<Rightarrow>
                         Some (Inr (ev\<lparr>ev_structured := None,
                           ev_message := ev_message ev @ '' | ''
                             @ format_outputs_joined (jl_show lib) outputs\<rparr>))))))"

definition jq_evaluate :: "json_lib \<Rightarrow> jq_filter \<Rightarrow> query_mode \<Rightarrow> stage" where
  "jq_evaluate lib f mode w r =
     (w, case r of Inl e \<Rightarrow> Some (Inl e) | Inr ev \<Rightarrow> jq_evaluate_event lib f mode ev)"

section \<open>Colors (\<open>color_assign.rs\<close>)\<close>

record color_assign_opts =
  ca_pod_colors :: bool
  ca_container_colors :: bool
  ca_diff_container :: bool

definition stable_palette_index :: "(string \<Rightarrow> u64) \<Rightarrow> string \<Rightarrow> u8" where
  "stable_palette_index sea key = ucast (sea key mod 16)"

definition container_palette_key :: "source_meta \<Rightarrow> color_assign_opts \<Rightarrow> string" where
  "container_palette_key meta opts =
     (if ca_diff_container opts then sm_container meta else sm_pod meta)"

definition apply_palette_to_meta ::
  "(string \<Rightarrow> u64) \<Rightarrow> color_assign_opts \<Rightarrow> source_meta \<Rightarrow> source_meta" where
  "apply_palette_to_meta sea opts meta =
     (let meta1 = (if ca_pod_colors opts
                   then meta\<lparr>sm_palette_index := Some (stable_palette_index sea (sm_pod meta))\<rparr>
                   else meta)
      in if ca_container_colors opts
         then meta1\<lparr>sm_container_palette_index :=
                      Some (stable_palette_index sea (container_palette_key meta1 opts))\<rparr>
         else meta1)"

definition color_assign_event ::
  "(string \<Rightarrow> u64) \<Rightarrow> color_assign_opts \<Rightarrow> log_event \<Rightarrow> log_event" where
  "color_assign_event sea opts ev =
     (let ev1 = (if ca_pod_colors opts \<and> ev_palette_index ev = None
                 then ev\<lparr>ev_palette_index := Some (stable_palette_index sea (sm_pod (ev_source ev)))\<rparr>
                 else ev)
      in if ca_container_colors opts \<and> ev_container_palette_index ev1 = None
         then ev1\<lparr>ev_container_palette_index :=
                    Some (stable_palette_index sea (container_palette_key (ev_source ev1) opts))\<rparr>
         else ev1)"

definition color_assign :: "(string \<Rightarrow> u64) \<Rightarrow> color_assign_opts \<Rightarrow> stage" where
  "color_assign sea opts = map_ok_stage (color_assign_event sea opts)"

lemma stable_palette_index_less: "unat (stable_palette_index sea key) < 16"
proof -
  have "unat (sea key mod 16) = unat (sea key) mod 16" by (simp add: unat_mod_distrib)
  then have "unat (sea key mod 16) < 16" by simp
  then show ?thesis
    by (simp add: stable_palette_index_def unsigned_ucast_eq take_bit_eq_mod)
qed

end
