(* ===== verification/Pod_Log.thy ===== *)
theory Pod_Log
  imports Source
begin

text \<open>
  \<open>source/pod_log.rs\<close> and \<open>source/retry.rs\<close>: the log request and its API parameters, opening
  a log stream with retries, decoding of raw lines, timestamps of lines without a prefix,
  and the event stream that \<open>PodLogSource::start\<close> unfolds from a reader.

  Parameters: \<open>parse_rfc3339\<close> and \<open>checked_add\<close> (chrono), \<open>parse_ts\<close> (jiff), the outcome of
  each API call, each read, and the random draw of the jitter.
\<close>

section \<open>Requests\<close>

record pod_log_request =
  plr_follow :: bool
  plr_tail :: "int option"
  plr_since_seconds :: "int option"
  plr_since_time :: "timestamp option"
  plr_previous :: bool

record log_params =
  lp_container :: "string option"
  lp_follow :: bool
  lp_timestamps :: bool
  lp_tail_lines :: "int option"
  lp_since_seconds :: "int option"
  lp_since_time :: "timestamp option"
  lp_previous :: bool

definition parse_since_time :: "(string \<Rightarrow> timestamp option) \<Rightarrow> string \<Rightarrow> string + timestamp" where
  "parse_since_time parse_ts raw =
     (let s = trim raw in
      if s = [] then Inl ''empty --since-time''
      else (case parse_ts s of
              Some t \<Rightarrow> Inr t
            | None \<Rightarrow> Inl (''invalid --since-time (expected RFC3339): '' @ s)))"

definition build_log_params :: "source_meta \<Rightarrow> pod_log_request \<Rightarrow> log_params" where
  "build_log_params meta req =
     \<lparr>lp_container = Some (sm_container meta),
      lp_follow = plr_follow req,
      lp_timestamps = True,
      lp_tail_lines = plr_tail req,
      lp_since_seconds = (if plr_since_time req \<noteq> None then None else plr_since_seconds req),
      lp_since_time = plr_since_time req,
      lp_previous = plr_previous req\<rparr>"

text \<open>
  The log API never receives both \<open>sinceSeconds\<close> and \<open>sinceTime\<close> (it rejects such a
  request); an absolute time wins, everything else is passed through, and kube timestamps
  are always requested.
\<close>

theorem build_log_params_exclusive:
  "(lp_since_seconds (build_log_params meta req) = None
      \<or> lp_since_time (build_log_params meta req) = None)
   \<and> lp_since_time (build_log_params meta req) = plr_since_time req
   \<and> lp_since_seconds (build_log_params meta req)
       = (case plr_since_time req of None \<Rightarrow> plr_since_seconds req | Some _ \<Rightarrow> None)
   \<and> lp_timestamps (build_log_params meta req)
   \<and> lp_container (build_log_params meta req) = Some (sm_container meta)
   \<and> lp_follow (build_log_params meta req) = plr_follow req
   \<and> lp_previous (build_log_params meta req) = plr_previous req"
  by (simp add: build_log_params_def split: option.splits)

section \<open>Backoff (\<open>source/retry.rs\<close>)\<close>

datatype kube_error = KubeApi nat string | KubeOther string

fun kube_error_display :: "kube_error \<Rightarrow> string" where
  "kube_error_display (KubeApi code msg) = msg"
| "kube_error_display (KubeOther msg) = msg"

definition max_backoff_ms :: u64 where
  "max_backoff_ms = 30000"

definition saturating_mul_u64 :: "u64 \<Rightarrow> u64 \<Rightarrow> u64" where
  "saturating_mul_u64 a b = (if unat a * unat b < 2 ^ 64 then a * b else - 1)"

definition backoff_cap :: "u64 \<Rightarrow> u32 \<Rightarrow> u64" where
  "backoff_cap base_ms attempt =
     min (saturating_mul_u64 base_ms (push_bit (unat (min attempt 8)) 1)) max_backoff_ms"

text \<open>\<open>draw cap\<close> is \<open>fastrand::u64(0..=cap)\<close>; the result is in milliseconds.\<close>

definition full_jitter_backoff :: "(u64 \<Rightarrow> u64) \<Rightarrow> u64 \<Rightarrow> u32 \<Rightarrow> u64" where
  "full_jitter_backoff draw base_ms attempt =
     (let cap = backoff_cap base_ms attempt in if cap = 0 then 0 else draw cap)"

fun kube_error_is_client_error :: "kube_error \<Rightarrow> bool" where
  "kube_error_is_client_error (KubeApi code msg) \<longleftrightarrow> 400 \<le> code \<and> code < 500 \<and> code \<noteq> 429"
| "kube_error_is_client_error (KubeOther msg) \<longleftrightarrow> False"

lemma unat_saturating_mul_u64:
  "unat (saturating_mul_u64 a b) = min (unat a * unat b) (2 ^ 64 - 1)"
proof (cases "unat a * unat b < 2 ^ 64")
  case True
  then have "unat (a * b) = unat a * unat b" by (simp add: unat_word_ariths)
  with True show ?thesis by (simp add: saturating_mul_u64_def)
next
  case False
  then show ?thesis by (simp add: saturating_mul_u64_def unsigned_minus_1_eq_mask mask_eq_exp_minus_1)
qed

lemma unat_shift_one: "n \<le> 8 \<Longrightarrow> unat ((2 :: u64) ^ n) = 2 ^ n"
proof -
  assume "n \<le> 8"
  then have "(2::nat) ^ n \<le> 2 ^ 8" by (rule power_increasing) simp
  then have "unat (word_of_nat (2 ^ n) :: u64) = 2 ^ n" by (subst unat_of_nat) simp
  then show ?thesis by simp
qed

lemma unat_backoff_cap:
  "unat (backoff_cap base_ms attempt) = min (unat base_ms * 2 ^ min (unat attempt) 8) 30000"
proof -
  have a: "unat (min attempt 8) = min (unat attempt) 8"
    by (simp add: min_def word_le_nat_alt)
  have "unat ((2 :: u64) ^ unat (min attempt 8)) = 2 ^ min (unat attempt) 8"
    unfolding a by (rule unat_shift_one) simp
  then have m: "unat (saturating_mul_u64 base_ms (2 ^ unat (min attempt 8)))
      = min (unat base_ms * 2 ^ min (unat attempt) 8) (2 ^ 64 - 1)"
    by (simp add: unat_saturating_mul_u64)
  have "unat (min x max_backoff_ms) = min (unat x) 30000" for x :: u64
    by (simp add: min_def word_le_nat_alt max_backoff_ms_def)
  then show ?thesis by (simp only: backoff_cap_def push_bit_of_1 m) simp
qed

text \<open>
  With any draw inside the range it is asked for, the delay before retry \<open>attempt\<close> is at
  most \<open>min (base * 2^min(attempt,8)) 30000\<close> milliseconds, although the product saturates
  at the width of \<open>u64\<close>; the cap never decreases from one attempt to the next.
\<close>

theorem full_jitter_backoff_bound:
  assumes "\<And>c. draw c \<le> c"
  shows "unat (full_jitter_backoff draw base_ms attempt)
           \<le> min (unat base_ms * 2 ^ min (unat attempt) 8) 30000
         \<and> (attempt \<le> later \<longrightarrow> backoff_cap base_ms attempt \<le> backoff_cap base_ms later)"
proof
  have "full_jitter_backoff draw base_ms attempt \<le> backoff_cap base_ms attempt"
    using assms by (simp add: full_jitter_backoff_def Let_def)
  then show "unat (full_jitter_backoff draw base_ms attempt)
      \<le> min (unat base_ms * 2 ^ min (unat attempt) 8) 30000"
    by (simp add: word_le_nat_alt unat_backoff_cap)
  show "attempt \<le> later \<longrightarrow> backoff_cap base_ms attempt \<le> backoff_cap base_ms later"
  proof
    assume "attempt \<le> later"
    then have "min (unat attempt) 8 \<le> min (unat later) 8"
      by (simp add: word_le_nat_alt min.coboundedI1 min_le_iff_disj)
    then have "unat base_ms * 2 ^ min (unat attempt) 8 \<le> unat base_ms * 2 ^ min (unat later) 8"
      by (intro mult_left_mono power_increasing) auto
    then show "backoff_cap base_ms attempt \<le> backoff_cap base_ms later"
      by (simp add: word_le_nat_alt unat_backoff_cap min_le_iff_disj)
  qed
qed

theorem full_jitter_backoff_bound_witness:
  "unat (full_jitter_backoff (\<lambda>c. c) 250 3) \<le> min (250 * 2 ^ 3) 30000
   \<and> backoff_cap 250 3 \<le> backoff_cap 250 (4 :: u32)"
  using full_jitter_backoff_bound [of "\<lambda>c. c" 250 3 4] by simp

section \<open>Opening a stream\<close>

text \<open>
  \<open>api n\<close> is the outcome of the \<open>n\<close>-th call of \<open>log_stream\<close>, \<open>delay n\<close> the pause chosen
  after a retryable failure of attempt \<open>n\<close>.  The result comes with the pauses made.
\<close>

function log_stream_retry_from ::
  "(nat \<Rightarrow> kube_error + 's) \<Rightarrow> (nat \<Rightarrow> u64) \<Rightarrow> nat \<Rightarrow> nat \<Rightarrow> (log_source_error + 's) \<times> u64 list" where
  "log_stream_retry_from api delay max_attempts attempt =
     (case api attempt of
        Inr s \<Rightarrow> (Inr s, [])
      | Inl e \<Rightarrow>
          if kube_error_is_client_error e then (Inl (Api (kube_error_display e)), [])
          else if attempt + 1 \<ge> max_attempts then
            (Inl (Api (''after '' @ show_nat max_attempts @ '' attempts: '' @ kube_error_display e)), [])
          else
            (case log_stream_retry_from api delay max_attempts (attempt + 1) of
               (r, ds) \<Rightarrow> (r, delay attempt # ds)))"
  by pat_completeness auto
termination
  by (relation "measure (\<lambda>(api, delay, m, a). m - a)") auto

declare log_stream_retry_from.simps [simp del]

definition log_stream_with_retry ::
  "(nat \<Rightarrow> kube_error + 's) \<Rightarrow> (u64 \<Rightarrow> u64) \<Rightarrow> nat \<Rightarrow> (log_source_error + 's) \<times> u64 list" where
  "log_stream_with_retry api draw max_attempts =
     log_stream_retry_from api (\<lambda>n. full_jitter_backoff draw 200 (of_nat n)) max_attempts 0"

definition retryable :: "kube_error + 's \<Rightarrow> bool" where
  "retryable r \<longleftrightarrow> (case r of Inl e \<Rightarrow> \<not> kube_error_is_client_error e | Inr _ \<Rightarrow> False)"

lemma retryable_simps [simp]:
  "retryable (Inr s) = False"
  "retryable (Inl e) = (\<not> kube_error_is_client_error e)"
  by (simp_all add: retryable_def)

text \<open>What the caller gets for the deciding call.\<close>

definition retry_outcome :: "nat \<Rightarrow> kube_error + 's \<Rightarrow> log_source_error + 's" where
  "retry_outcome max_attempts r =
     (case r of
        Inr s \<Rightarrow> Inr s
      | Inl e \<Rightarrow> Inl (Api (if kube_error_is_client_error e then kube_error_display e
                         else ''after '' @ show_nat max_attempts @ '' attempts: ''
                              @ kube_error_display e)))"

lemma log_stream_retry_from_spec:
  assumes "a < m"
  shows "\<exists>n. a \<le> n \<and> n < m \<and> (\<forall>i. a \<le> i \<and> i < n \<longrightarrow> retryable (api i))
      \<and> length (snd (log_stream_retry_from api delay m a)) = n - a
      \<and> (retryable (api n) \<longrightarrow> n + 1 = m)
      \<and> fst (log_stream_retry_from api delay m a) = retry_outcome m (api n)"
  using assms
proof (induction api delay m a rule: log_stream_retry_from.induct)
  case (1 api delay m a)
  note unf = log_stream_retry_from.simps [of api delay m a]
  show ?case
  proof (cases "retryable (api a) \<and> a + 1 < m")
    case False
    then have "length (snd (log_stream_retry_from api delay m a)) = 0"
      and "fst (log_stream_retry_from api delay m a) = retry_outcome m (api a)"
      by (auto simp: unf retry_outcome_def split: sum.splits)
    with False 1(2) show ?thesis by (intro exI [of _ a]) auto
  next
    case True
    then obtain e where e: "api a = Inl e" "\<not> kube_error_is_client_error e"
      by (auto simp: retryable_def split: sum.splits)
    from 1(1) [OF e] True obtain n where n: "a + 1 \<le> n" "n < m"
        "\<forall>i. a + 1 \<le> i \<and> i < n \<longrightarrow> retryable (api i)"
        "length (snd (log_stream_retry_from api delay m (a + 1))) = n - (a + 1)"
        "retryable (api n) \<longrightarrow> n + 1 = m"
        "fst (log_stream_retry_from api delay m (a + 1)) = retry_outcome m (api n)"
      by auto
    have eq: "log_stream_retry_from api delay m a =
        (fst (log_stream_retry_from api delay m (a + 1)),
         delay a # snd (log_stream_retry_from api delay m (a + 1)))"
      using e True by (simp add: unf split: prod.split)
    have "retryable (api i)" if "a \<le> i" "i < n" for i
      using that True n(3) by (cases "i = a") auto
    with n show ?thesis unfolding eq by (intro exI [of _ n]) auto
  qed
qed

text \<open>
  C27: opening a log stream always returns, after at most \<open>max_attempts\<close> calls: there is a
  call \<open>n\<close> that decides, every call before it failed with a retryable error (anything but a
  4xx other than 429), exactly \<open>n\<close> pauses were made, each at most 30 seconds, the last
  retryable error decides only when the attempts are used up, and the result is the stream
  of call \<open>n\<close> or an API error with its message (prefixed when the attempts ran out).
\<close>

theorem log_stream_with_retry_spec:
  assumes "0 < max_attempts" and draw: "\<And>c. draw c \<le> c"
  shows "\<exists>n < max_attempts. (\<forall>i < n. retryable (api i))
      \<and> length (snd (log_stream_with_retry api draw max_attempts)) = n
      \<and> (retryable (api n) \<longrightarrow> n + 1 = max_attempts)
      \<and> fst (log_stream_with_retry api draw max_attempts) = retry_outcome max_attempts (api n)
      \<and> (\<forall>d \<in> set (snd (log_stream_with_retry api draw max_attempts)). unat d \<le> 30000)"
proof -
  let ?delay = "\<lambda>n. full_jitter_backoff draw 200 (of_nat n)"
  have "unat (?delay n) \<le> 30000" for n
    using full_jitter_backoff_bound [of draw 200 "of_nat n", OF draw] by simp
  moreover have "set (snd (log_stream_retry_from api ?delay m a)) \<subseteq> range ?delay" for m a
    by (induction api ?delay m a rule: log_stream_retry_from.induct)
      (subst log_stream_retry_from.simps, auto split: sum.splits prod.splits)
  ultimately have "\<forall>d \<in> set (snd (log_stream_retry_from api ?delay max_attempts 0)). unat d \<le> 30000"
    by (metis (mono_tags, lifting) rangeE subsetD)
  with log_stream_retry_from_spec [OF assms(1), of api ?delay] show ?thesis
    unfolding log_stream_with_retry_def by auto
qed

theorem log_stream_with_retry_spec_witness:
  "\<exists>n < (3::nat). (\<forall>i < n. retryable ((\<lambda>n. if n = 0 then Inl (KubeApi 503 ''busy'') else Inr ''s'') i))
     \<and> fst (log_stream_with_retry (\<lambda>n. if n = (0::nat) then Inl (KubeApi 503 ''busy'') else Inr ''s'')
         (\<lambda>c. c) 3) = retry_outcome 3 ((\<lambda>n. if n = 0 then Inl (KubeApi 503 ''busy'') else Inr ''s'') n)"
proof -
  have d: "(0::nat) < 3" "\<And>c::u64. (\<lambda>c. c) c \<le> c" by simp_all
  show ?thesis
    using log_stream_with_retry_spec
      [OF d, of "\<lambda>n. if n = 0 then Inl (KubeApi 503 ''busy'') else Inr ''s''"]
    by blast
qed

section \<open>Raw lines\<close>

definition drop_last_char :: "char \<Rightarrow> string \<Rightarrow> string" where
  "drop_last_char c raw = (if raw \<noteq> [] \<and> last raw = c then butlast raw else raw)"

definition trim_line_end :: "string \<Rightarrow> string" where
  "trim_line_end raw = drop_last_char (CHR 0x0D) (drop_last_char (CHR 0x0A) raw)"

definition decode_message :: "string \<Rightarrow> string" where
  "decode_message raw =
     (case from_utf8 raw of Some msg \<Rightarrow> msg | None \<Rightarrow> from_utf8_lossy raw)"

definition split_log_line ::
  "(string \<Rightarrow> timestamp option) \<Rightarrow> string \<Rightarrow> timestamp option \<times> string" where
  "split_log_line parse_rfc3339 raw0 =
     (let raw = trim_line_end raw0 in
      case split_once (CHR '' '') raw of
        Some (ts_b, msg_raw) \<Rightarrow>
          (case Option.bind (from_utf8 ts_b) parse_rfc3339 of
             Some ts \<Rightarrow> (Some ts, decode_message msg_raw)
           | None \<Rightarrow> (None, decode_message raw))
      | None \<Rightarrow> (None, decode_message raw))"

lemma decode_message_eq: "decode_message raw = from_utf8_lossy raw"
  by (simp add: decode_message_def from_utf8_def from_utf8_lossy_id)

lemma utf8_valid_decode: "utf8_valid (decode_message raw)"
  by (simp add: decode_message_eq from_utf8_lossy_valid)

lemma utf8_valid_split_log_line: "utf8_valid (snd (split_log_line parse raw))"
  by (auto simp: split_log_line_def Let_def utf8_valid_decode split: option.splits)

lemma trim_line_end_newline:
  "(s = [] \<or> last s \<noteq> CHR 0x0D) \<Longrightarrow> trim_line_end (s @ [CHR 0x0A]) = s"
  by (auto simp: trim_line_end_def drop_last_char_def)

lemma trim_line_end_crlf: "trim_line_end (s @ [CHR 0x0D, CHR 0x0A]) = s"
  by (simp add: trim_line_end_def drop_last_char_def butlast_append)

text \<open>
  A line the API sends with a timestamp prefix, a well-formed message and either line
  ending is split into exactly that timestamp and that message, spaces inside the message
  included.
\<close>

theorem split_log_line_roundtrip:
  assumes "parse ts_s = Some t" and "CHR '' '' \<notin> set ts_s" and "utf8_valid ts_s"
    and "utf8_valid msg" and "eol = [CHR 0x0D, CHR 0x0A] \<or> eol = [CHR 0x0A] \<and> (msg = [] \<or> last msg \<noteq> CHR 0x0D)"
  shows "split_log_line parse (ts_s @ '' '' @ msg @ eol) = (Some t, msg)"
proof -
  have "trim_line_end ((ts_s @ CHR '' '' # msg) @ eol) = ts_s @ CHR '' '' # msg"
    using assms(5)
  proof
    assume "eol = [CHR 0x0D, CHR 0x0A]"
    then show ?thesis by (simp only: trim_line_end_crlf)
  next
    assume e: "eol = [CHR 0x0A] \<and> (msg = [] \<or> last msg \<noteq> CHR 0x0D)"
    then have "last (ts_s @ CHR '' '' # msg) \<noteq> CHR 0x0D" by auto
    with e show ?thesis using trim_line_end_newline by blast
  qed
  then have t: "trim_line_end (ts_s @ '' '' @ msg @ eol) = ts_s @ CHR '' '' # msg" by simp
  have "split_once (CHR '' '') (ts_s @ CHR '' '' # msg) = Some (ts_s, msg)"
    using assms(2) by (simp add: split_once_Some)
  with assms(1,3,4) show ?thesis
    by (simp only: split_log_line_def t Let_def)
      (simp add: from_utf8_def decode_message_eq from_utf8_lossy_id)
qed

theorem split_log_line_roundtrip_witness:
  "split_log_line (\<lambda>s. if s = ''2024Z'' then Some 7 else None)
     (''2024Z'' @ '' '' @ ''hello world'' @ [CHR 0x0A]) = (Some 7, ''hello world'')"
proof -
  have v: "utf8_valid ''2024Z''" "utf8_valid ''hello world''"
    by (simp_all add: utf8_valid.simps byte_of_def)
  show ?thesis
    by (rule split_log_line_roundtrip) (simp_all add: v)
qed

section \<open>Timestamps of lines without a prefix\<close>

record ts_resolver =
  tsr_last :: "timestamp option"

definition ts_resolver_default :: ts_resolver where
  "ts_resolver_default = \<lparr>tsr_last = None\<rparr>"

text \<open>
  \<open>checked_add t d\<close> is chrono's addition of \<open>d\<close> nanoseconds, \<open>None\<close> outside its range; the
  \<open>+\<close> of the source panics there, so \<open>None\<close> of the result stands for the panic.
\<close>

definition resolve ::
  "(timestamp \<Rightarrow> int \<Rightarrow> timestamp option) \<Rightarrow> ts_resolver \<Rightarrow> timestamp option \<Rightarrow> string
   \<Rightarrow> (ts_resolver \<times> timestamp \<times> string) option" where
  "resolve checked_add r parsed msg =
     (case parsed of
        Some ts \<Rightarrow> Some (r\<lparr>tsr_last := Some ts\<rparr>, ts, msg)
      | None \<Rightarrow>
          (case tsr_last r of
             None \<Rightarrow> Some (r\<lparr>tsr_last := Some 0\<rparr>, 0, msg)
           | Some prev \<Rightarrow>
               (case checked_add prev 1000 of
                  None \<Rightarrow> None
                | Some ts \<Rightarrow> Some (r\<lparr>tsr_last := Some ts\<rparr>, ts, msg))))"

definition add_lawful :: "(timestamp \<Rightarrow> int \<Rightarrow> timestamp option) \<Rightarrow> bool" where
  "add_lawful add \<longleftrightarrow> (\<forall>t d t'. add t d = Some t' \<longrightarrow> t' = t + d)"

lemma resolve_last: "resolve add r parsed msg = Some (r', ts, m) \<Longrightarrow> tsr_last r' = Some ts \<and> m = msg"
  by (auto simp: resolve_def split: option.splits)

section \<open>The event stream of \<open>PodLogSource::start\<close>\<close>

text \<open>
  One poll of the stream: the token wins the select, or \<open>read_until\<close> returns the bytes read
  (none at the end of the stream) or an error.
\<close>

datatype read_outcome = TokenCancelled | ReadOk string | ReadErr string

text \<open>How the unfolded stream stands after the given polls.\<close>

datatype stream_status = Ended | StreamPending | Panicked

definition mk_log_event :: "source_meta \<Rightarrow> timestamp \<Rightarrow> string \<Rightarrow> log_event" where
  "mk_log_event meta ts msg =
     \<lparr>ev_source = meta, ev_timestamp = ts, ev_message = msg, ev_structured = None,
      ev_level = None, ev_palette_index = sm_palette_index meta,
      ev_container_palette_index = sm_container_palette_index meta\<rparr>"

fun pod_log_unfold ::
  "(string \<Rightarrow> timestamp option) \<Rightarrow> (timestamp \<Rightarrow> int \<Rightarrow> timestamp option) \<Rightarrow> source_meta
   \<Rightarrow> bool \<Rightarrow> ts_resolver \<Rightarrow> read_outcome list \<Rightarrow> item list \<times> stream_status" where
  "pod_log_unfold parse add meta True r reads = ([], Ended)"
| "pod_log_unfold parse add meta False r [] = ([], StreamPending)"
| "pod_log_unfold parse add meta False r (TokenCancelled # reads) = ([], Ended)"
| "pod_log_unfold parse add meta False r (ReadErr e # reads) =
     (case pod_log_unfold parse add meta True r reads of (evs, st) \<Rightarrow> (Inl (Api e) # evs, st))"
| "pod_log_unfold parse add meta False r (ReadOk buf # reads) =
     (if buf = [] then ([], Ended)
      else (case split_log_line parse buf of
              (parsed, msg) \<Rightarrow>
                (case resolve add r parsed msg of
                   None \<Rightarrow> ([], Panicked)
                 | Some (r', ts, msg') \<Rightarrow>
                     (case pod_log_unfold parse add meta False r' reads of
                        (evs, st) \<Rightarrow> (Inr (mk_log_event meta ts msg') # evs, st)))))"

definition pod_log_stream where
  "pod_log_stream parse add meta reads = pod_log_unfold parse add meta False ts_resolver_default reads"

lemma pod_log_unfold_events:
  "x \<in> set (fst (pod_log_unfold parse add meta d r reads)) \<Longrightarrow>
   (\<exists>ts msg. x = Inr (mk_log_event meta ts msg) \<and> utf8_valid msg) \<or> (\<exists>e. x = Inl (Api e))"
  by (induction parse add meta d r reads rule: pod_log_unfold.induct)
    (auto split: prod.splits option.splits if_splits dest!: resolve_last,
     (metis snd_conv utf8_valid_split_log_line)+)

text \<open>
  The reads that bring a line, and what each line says: its timestamp, if it has one, and its
  message.  The stamp of a line without one is a microsecond after that of the line before it.
\<close>

fun brings_line :: "read_outcome \<Rightarrow> bool" where
  "brings_line (ReadOk buf) \<longleftrightarrow> buf \<noteq> []"
| "brings_line _ \<longleftrightarrow> False"

fun read_buf :: "read_outcome \<Rightarrow> string" where
  "read_buf (ReadOk buf) = buf"
| "read_buf _ = []"

definition lines_read :: "(string \<Rightarrow> timestamp option) \<Rightarrow> read_outcome list \<Rightarrow> (timestamp option \<times> string) list" where
  "lines_read parse reads = map (\<lambda>x. split_log_line parse (read_buf x)) (takeWhile brings_line reads)"

definition stamp :: "timestamp option \<Rightarrow> timestamp option \<Rightarrow> timestamp" where
  "stamp before date = (case date of Some t \<Rightarrow> t | None \<Rightarrow> (case before of None \<Rightarrow> 0 | Some t \<Rightarrow> t + 1000))"

definition plain_event :: "source_meta \<Rightarrow> timestamp \<Rightarrow> string \<Rightarrow> log_event \<Rightarrow> bool" where
  "plain_event meta ts msg ev \<longleftrightarrow>
     ev_source ev = meta \<and> ev_timestamp ev = ts \<and> ev_message ev = msg \<and> utf8_valid msg
     \<and> ev_level ev = None \<and> ev_structured ev = None \<and> ev_palette_index ev = sm_palette_index meta
     \<and> ev_container_palette_index ev = sm_container_palette_index meta"

definition ok_events :: "item list \<Rightarrow> log_event list" where
  "ok_events xs = List.map_filter (\<lambda>x. case x of Inl _ \<Rightarrow> None | Inr ev \<Rightarrow> Some ev) xs"

lemma ok_events_simps [simp]:
  "ok_events [] = []"
  "ok_events (Inl e # xs) = ok_events xs"
  "ok_events (Inr ev # xs) = ev # ok_events xs"
  by (simp_all add: ok_events_def List.map_filter_simps)

lemma ok_events_append [simp]: "ok_events (xs @ ys) = ok_events xs @ ok_events ys"
  by (induction xs) (auto split: sum.splits simp: ok_events_def List.map_filter_def)

lemma set_ok_events: "ev \<in> set (ok_events xs) \<longleftrightarrow> Inr ev \<in> set xs"
proof (induction xs)
  case (Cons x xs)
  then show ?case by (cases x) auto
qed simp

lemma ok_events_map_Inr [simp]: "ok_events (map Inr evs) = evs"
  by (induction evs) simp_all

lemma resolve_stamp:
  "add_lawful add \<Longrightarrow> resolve add r date msg = Some (r', ts, msg') \<Longrightarrow>
     ts = stamp (tsr_last r) date \<and> tsr_last r' = Some ts \<and> msg' = msg"
  by (auto simp: resolve_def stamp_def add_lawful_def split: option.splits)

lemma resolve_None:
  "resolve add r date msg = None \<longleftrightarrow> date = None \<and> (\<exists>t. tsr_last r = Some t \<and> add t 1000 = None)"
  by (auto simp: resolve_def split: option.splits)

text \<open>The state of a stream that is not at its end, from any resolver on.\<close>

lemma pod_log_unfold_exact:
  assumes "add_lawful add" and "pod_log_unfold parse add meta False r reads = (items, status)"
  shows "\<exists>evs. items = map Inr evs
        @ (if status = Panicked then []
           else case dropWhile brings_line reads of ReadErr e # rest \<Rightarrow> [Inl (Api e)] | _ \<Rightarrow> [])
    \<and> (if status = Panicked
       then length evs < length (lines_read parse reads) \<and> fst (lines_read parse reads ! length evs) = None
         \<and> (\<exists>t. (if evs = [] then tsr_last r else Some (ev_timestamp (last evs))) = Some t \<and> add t 1000 = None)
       else length evs = length (lines_read parse reads)
         \<and> status = (if dropWhile brings_line reads = [] then StreamPending else Ended))
    \<and> (\<forall>i < length evs. plain_event meta
          (stamp (if i = 0 then tsr_last r else Some (ev_timestamp (evs ! (i - 1)))) (fst (lines_read parse reads ! i)))
          (snd (lines_read parse reads ! i)) (evs ! i))"
  using assms(2)
proof (induction reads arbitrary: r items)
  case Nil
  then show ?case by (simp add: lines_read_def)
next
  case (Cons x reads)
  show ?case
  proof (cases "brings_line x")
    case False
    then have "lines_read parse (x # reads) = []" by (simp add: lines_read_def)
    with False Cons.prems show ?thesis by (cases x) (auto split: if_splits)
  next
    case True
    then obtain buf where x: "x = ReadOk buf" "buf \<noteq> []" by (cases x) auto
    obtain date msg where sp: "split_log_line parse buf = (date, msg)" by fastforce
    have lines: "lines_read parse (x # reads) = (date, msg) # lines_read parse reads"
      using x sp by (simp add: lines_read_def)
    have stop: "dropWhile brings_line (x # reads) = dropWhile brings_line reads" using x by simp
    have valid: "utf8_valid msg" using utf8_valid_split_log_line [of parse buf] sp by simp
    show ?thesis
    proof (cases "resolve add r date msg")
      case None
      with Cons.prems x sp have "items = []" "status = Panicked" by simp_all
      with None show ?thesis unfolding lines by (intro exI [of _ "[]"]) (simp add: resolve_None)
    next
      case (Some res)
      obtain r' ts msg' where res: "res = (r', ts, msg')" by (cases res)
      note st = resolve_stamp [OF assms(1) Some [unfolded res]]
      obtain items' where rest: "pod_log_unfold parse add meta False r' reads = (items', status)"
        and items: "items = Inr (mk_log_event meta ts msg) # items'"
        using Cons.prems x sp Some res st by (auto split: prod.splits)
      from Cons.IH [OF rest] obtain evs where evs: "items' = map Inr evs
          @ (if status = Panicked then []
             else case dropWhile brings_line reads of ReadErr e # rest \<Rightarrow> [Inl (Api e)] | _ \<Rightarrow> [])"
        "if status = Panicked
         then length evs < length (lines_read parse reads) \<and> fst (lines_read parse reads ! length evs) = None
           \<and> (\<exists>t. (if evs = [] then tsr_last r' else Some (ev_timestamp (last evs))) = Some t \<and> add t 1000 = None)
         else length evs = length (lines_read parse reads)
           \<and> status = (if dropWhile brings_line reads = [] then StreamPending else Ended)"
        "\<forall>i < length evs. plain_event meta
            (stamp (if i = 0 then tsr_last r' else Some (ev_timestamp (evs ! (i - 1)))) (fst (lines_read parse reads ! i)))
            (snd (lines_read parse reads ! i)) (evs ! i)"
        by blast
      let ?ev = "mk_log_event meta ts msg"
      have ev: "plain_event meta (stamp (tsr_last r) date) msg ?ev" "ev_timestamp ?ev = ts"
        using st valid by (simp_all add: plain_event_def mk_log_event_def)
      have each: "plain_event meta
          (stamp (if i = 0 then tsr_last r else Some (ev_timestamp ((?ev # evs) ! (i - 1)))) (fst (((date, msg) # lines_read parse reads) ! i)))
          (snd (((date, msg) # lines_read parse reads) ! i)) ((?ev # evs) ! i)" if "i < length (?ev # evs)" for i
      proof (cases i)
        case (Suc j)
        then show ?thesis using evs(3) [rule_format, of j] that st ev(2) by (cases j) simp_all
      qed (simp add: ev(1))
      show ?thesis
        unfolding lines stop items
        using evs(1,2) each st ev(2) by (intro exI [of _ "?ev # evs"]) (auto split: if_splits)
    qed
  qed
qed

text \<open>
  C26: if chrono's addition, where it succeeds, adds, the stream of a pod log yields one event per line read, in order, until the first read
  error, cancellation or end of the reader: the event of a line carries the stream's own metadata
  and palette slots, the line's message decoded to valid UTF-8, its timestamp or, without one, a
  stamp one microsecond after that of the line before (the epoch for the first line), and
  neither level nor structured payload.  A read error becomes the last item of a stream that has
  ended; with no more reads the stream is pending.  The one exception is an undated line a
  microsecond after chrono's last instant, where the addition panics.
\<close>

theorem pod_log_stream_items:
  assumes "add_lawful add"
  shows "let (items, status) = pod_log_stream parse add meta reads;
             lines = lines_read parse reads;
             stop = dropWhile brings_line reads;
             evs = ok_events items
         in (if status = Panicked
             then items = map Inr evs \<and> 0 < length evs \<and> length evs < length lines
               \<and> fst (lines ! length evs) = None \<and> add (ev_timestamp (last evs)) 1000 = None
             else items = map Inr evs @ (case stop of ReadErr e # rest \<Rightarrow> [Inl (Api e)] | _ \<Rightarrow> [])
               \<and> length evs = length lines \<and> status = (if stop = [] then StreamPending else Ended))
          \<and> list_all (\<lambda>i. plain_event meta
                (stamp (if i = 0 then None else Some (ev_timestamp (evs ! (i - 1)))) (fst (lines ! i)))
                (snd (lines ! i)) (evs ! i)) [0 ..< length evs]"
proof -
  obtain items status where p: "pod_log_stream parse add meta reads = (items, status)" by fastforce
  have "tsr_last ts_resolver_default = None" by (simp add: ts_resolver_default_def)
  from pod_log_unfold_exact [OF assms p [unfolded pod_log_stream_def], unfolded this] obtain evs where
    evs: "items = map Inr evs
        @ (if status = Panicked then []
           else case dropWhile brings_line reads of ReadErr e # rest \<Rightarrow> [Inl (Api e)] | _ \<Rightarrow> [])" and
    rest: "if status = Panicked
       then length evs < length (lines_read parse reads) \<and> fst (lines_read parse reads ! length evs) = None
         \<and> (\<exists>t. (if evs = [] then None else Some (ev_timestamp (last evs))) = Some t \<and> add t 1000 = None)
       else length evs = length (lines_read parse reads)
         \<and> status = (if dropWhile brings_line reads = [] then StreamPending else Ended)"
      "\<forall>i < length evs. plain_event meta
          (stamp (if i = 0 then None else Some (ev_timestamp (evs ! (i - 1)))) (fst (lines_read parse reads ! i)))
          (snd (lines_read parse reads ! i)) (evs ! i)"
    by blast
  have ok: "ok_events items = evs" unfolding evs by (auto split: list.split read_outcome.split)
  show ?thesis
    unfolding p Let_def prod.case ok list_all_iff set_upt
    using evs rest by (auto split: if_splits)
qed

theorem pod_log_stream_items_witness:
  "\<forall>meta. let evs = ok_events (fst (pod_log_stream (\<lambda>s. if s = ''t'' then Some 7 else None) (\<lambda>t d. Some (t + d)) meta
      [ReadOk ''t x'', ReadOk ''y'', ReadErr ''broken'', ReadOk ''z'']))
    in length evs = 2 \<and> plain_event meta 7 ''x'' (evs ! 0) \<and> plain_event meta 1007 ''y'' (evs ! 1)"
proof
  fix meta
  let ?p = "\<lambda>s. if s = ''t'' then Some (7::int) else None"
  let ?reads = "[ReadOk ''t x'', ReadOk ''y'', ReadErr ''broken'', ReadOk ''z'']"
  have v: "utf8_valid ''t''" "utf8_valid ''x''" "utf8_valid ''y''"
    by (simp_all add: utf8_valid.simps byte_of_def)
  then have "split_log_line ?p ''t x'' = (Some 7, ''x'')" "split_log_line ?p ''y'' = (None, ''y'')"
    by (simp_all add: split_log_line_def trim_line_end_def drop_last_char_def split_once_def
        from_utf8_def decode_message_def)
  then have lines: "lines_read ?p ?reads = [(Some 7, ''x''), (None, ''y'')]" by (simp add: lines_read_def)
  obtain items status where p: "pod_log_stream ?p (\<lambda>t d. Some (t + d)) meta ?reads = (items, status)" by fastforce
  have "add_lawful (\<lambda>t d. Some (t + d))" by (simp add: add_lawful_def)
  from pod_log_stream_items [OF this, of ?p meta ?reads]
  have two: "length (ok_events items) = 2" and each: "list_all (\<lambda>i. plain_event meta
      (stamp (if i = 0 then None else Some (ev_timestamp (ok_events items ! (i - 1)))) (fst ([(Some 7, ''x''), (None, ''y'')] ! i)))
      (snd ([(Some 7, ''x''), (None, ''y'')] ! i)) (ok_events items ! i)) [0 ..< length (ok_events items)]"
    unfolding p Let_def prod.case lines by (auto split: if_splits)
  from each have "plain_event meta 7 ''x'' (ok_events items ! 0)"
    and e: "plain_event meta (stamp (Some (ev_timestamp (ok_events items ! 0))) None) ''y'' (ok_events items ! 1)"
    by (simp_all add: two list_all_iff atLeast0LessThan lessThan_nat_numeral lessThan_Suc stamp_def)
  moreover from this have "ev_timestamp (ok_events items ! 0) = 7" by (simp add: plain_event_def)
  ultimately show "let evs = ok_events (fst (pod_log_stream ?p (\<lambda>t d. Some (t + d)) meta ?reads))
    in length evs = 2 \<and> plain_event meta 7 ''x'' (evs ! 0) \<and> plain_event meta 1007 ''y'' (evs ! 1)"
    using two by (simp add: p stamp_def)
qed

text \<open>The lines of a stream as a predicate on consecutive items: which of them were undated.\<close>

fun line_undated :: "(string \<Rightarrow> timestamp option) \<Rightarrow> read_outcome \<Rightarrow> bool" where
  "line_undated parse (ReadOk buf) = (buf \<noteq> [] \<and> fst (split_log_line parse buf) = None)"
| "line_undated parse _ = False"

lemma undated_stream_spacing:
  assumes "add_lawful add" and "tsr_last r = Some t0"
    and "\<forall>x \<in> set reads. line_undated parse x"
    and "i < length (ok_events (fst (pod_log_unfold parse add meta False r reads)))"
  shows "ev_timestamp (ok_events (fst (pod_log_unfold parse add meta False r reads)) ! i)
      = t0 + 1000 * (int i + 1)"
  using assms
proof (induction reads arbitrary: r t0 i)
  case Nil
  then show ?case by simp
next
  case (Cons x reads)
  from Cons.prems(3) obtain buf msg where x: "x = ReadOk buf" "buf \<noteq> []"
      and sp: "split_log_line parse buf = (None, msg)"
    by (cases x) (auto, metis prod.collapse)
  show ?case
  proof (cases "resolve add r None msg")
    case None
    with Cons.prems(4) x sp show ?thesis by simp
  next
    case (Some res)
    obtain r' ts m where res: "res = (r', ts, m)" by (cases res)
    with Some Cons.prems(1,2) have ts: "ts = t0 + 1000" "tsr_last r' = Some ts"
      by (auto simp: resolve_def add_lawful_def split: option.splits)
    let ?rest = "fst (pod_log_unfold parse add meta False r' reads)"
    have eq: "ok_events (fst (pod_log_unfold parse add meta False r (x # reads)))
        = mk_log_event meta ts m # ok_events ?rest"
      using x sp Some res by (simp split: prod.split)
    show ?thesis
    proof (cases i)
      case 0
      with ts show ?thesis unfolding eq by (simp add: mk_log_event_def)
    next
      case (Suc j)
      with Cons.prems(4) have "j < length (ok_events ?rest)" unfolding eq by simp
      with Cons.IH [OF Cons.prems(1) ts(2)] Cons.prems(3) have
        "ev_timestamp (ok_events ?rest ! j) = ts + 1000 * (int j + 1)" by simp
      with ts Suc show ?thesis unfolding eq by simp
    qed
  qed
qed

text \<open>
  The lines without a prefix that follow a dated line are stamped one microsecond apart,
  in the order read: the \<open>i\<close>-th of them carries the dated line's time plus \<open>i + 1\<close>
  microseconds, so cursors taken from them never go back or jump to the wall clock.
\<close>

theorem undated_lines_follow_dated:
  assumes "add_lawful add"
    and "split_log_line parse buf = (Some t0, msg)" and "buf \<noteq> []"
    and "\<forall>x \<in> set reads. line_undated parse x"
    and "evs = ok_events (fst (pod_log_stream parse add meta (ReadOk buf # reads)))"
    and "i < length evs"
  shows "ev_timestamp (evs ! i) = t0 + 1000 * int i"
proof -
  let ?r = "ts_resolver_default\<lparr>tsr_last := Some t0\<rparr>"
  have evs: "evs = mk_log_event meta t0 msg # ok_events (fst (pod_log_unfold parse add meta False ?r reads))"
    using assms(2,3,5) by (simp add: pod_log_stream_def resolve_def split: prod.split)
  show ?thesis
  proof (cases i)
    case 0
    then show ?thesis by (simp add: evs mk_log_event_def)
  next
    case (Suc j)
    with undated_stream_spacing [of add ?r t0 reads parse j meta] assms(1,4,6) show ?thesis
      by (simp add: evs)
  qed
qed

theorem undated_lines_follow_dated_witness:
  "\<forall>m. ev_timestamp (ok_events (fst (pod_log_stream (\<lambda>s. if s = ''t'' then Some 7 else None)
      (\<lambda>t d. Some (t + d)) m [ReadOk ''t x'', ReadOk ''y''])) ! 1) = 1007"
proof -
  have v: "utf8_valid ''t''" "utf8_valid ''x''" "utf8_valid ''y''"
    by (simp_all add: utf8_valid.simps byte_of_def)
  let ?p = "\<lambda>s. if s = ''t'' then Some (7::int) else None"
  have a: "split_log_line ?p ''t x'' = (Some 7, ''x'')" and b: "split_log_line ?p ''y'' = (None, ''y'')"
    using v by (simp_all add: split_log_line_def trim_line_end_def drop_last_char_def split_once_def
        from_utf8_def decode_message_def)
  have "1 < length (ok_events (fst (pod_log_stream ?p (\<lambda>t d. Some (t + d)) m [ReadOk ''t x'', ReadOk ''y''])))" for m
    using a b by (simp add: pod_log_stream_def resolve_def ts_resolver_default_def)
  from undated_lines_follow_dated [OF _ a _ _ refl this] b show ?thesis
    by (simp add: add_lawful_def)
qed

end
