(* ===== verification/Stage_Contract.thy ===== *)
theory Stage_Contract
  imports Stages Pod_Log
begin

text \<open>
  The contract every pipeline stage keeps with the runtime, as a locale, with what follows
  from it for a whole stream; the contract is closed under composition and holds of every
  stage of \<open>Stages\<close>.  The properties of the single transforms follow at the end.
\<close>

section \<open>Streams through a stage in closed form\<close>

lemma run_stage_closed:
  assumes "\<And>w r. st w r = (if b r then fire w else w, out r)"
  shows "run_stage st w xs = (if list_ex b xs then fire w else w, List.map_filter out xs)"
proof (induction xs arbitrary: w)
  case Nil
  show ?case by (simp add: List.map_filter_def)
next
  case (Cons r rs)
  then show ?case by (auto simp: assms List.map_filter_simps split: option.splits)
qed

lemma map_filter_bind:
  "List.map_filter (\<lambda>r. Option.bind (f r) g) xs = List.map_filter g (List.map_filter f xs)"
  by (induction xs) (auto simp: List.map_filter_simps split: option.splits)

lemma list_ex_map_filter:
  "list_ex b (List.map_filter f xs) \<longleftrightarrow> list_ex (\<lambda>r. \<exists>x. f r = Some x \<and> b x) xs"
  by (induction xs) (auto simp: List.map_filter_simps split: option.splits)

section \<open>The contract\<close>

text \<open>
  A stage decides what it emits and whether it fires the exit trigger from the item alone;
  it passes errors on untouched, makes no errors of its own, and keeps source and timestamp
  of an event.
\<close>

locale stage_contract =
  fixes st :: stage
  assumes shape: "\<exists>b out. \<forall>w. st w r = (if b then fire w else w, out)"
    and err_pass: "st w (Inl e) = (w, Some (Inl e))"
    and no_new_error: "snd (st w (Inr ev)) \<noteq> Some (Inl e)"
    and origin: "snd (st w (Inr ev)) = Some (Inr ev') \<Longrightarrow>
      ev_source ev' = ev_source ev \<and> ev_timestamp ev' = ev_timestamp ev"
begin

lemma out_indep: "snd (st w r) = snd (st w' r)"
  using shape [of r] by (metis snd_conv)

lemma fst_cases: "fst (st w r) = w \<or> fst (st w r) = fire w"
  using shape [of r] by (metis fst_conv)

lemma run_stage_err_pass:
  "filter isl (snd (run_stage st w xs)) = filter isl xs"
proof (induction xs arbitrary: w)
  case Nil
  show ?case by simp
next
  case (Cons r rs)
  show ?case
  proof (cases r)
    case (Inl e)
    with Cons show ?thesis by (simp add: err_pass case_prod_unfold)
  next
    case (Inr ev)
    with Cons no_new_error [of w ev] show ?thesis
      by (auto simp: case_prod_unfold isl_def split: option.splits)
  qed
qed

text \<open>Where an event comes from: its source and its timestamp.\<close>

lemma run_stage_origin:
  "subseq (map (\<lambda>ev. (ev_source ev, ev_timestamp ev)) (ok_events (snd (run_stage st w xs))))
          (map (\<lambda>ev. (ev_source ev, ev_timestamp ev)) (ok_events xs))"
proof (induction xs arbitrary: w)
  case Nil
  show ?case by simp
next
  case (Cons r rs)
  show ?case
  proof (cases r)
    case (Inl e)
    with Cons show ?thesis by (simp add: err_pass case_prod_unfold)
  next
    case (Inr ev)
    show ?thesis
    proof (cases "snd (st w r)")
      case None
      with Cons Inr show ?thesis by (auto simp: case_prod_unfold intro: list_emb_Cons)
    next
      case (Some x)
      with Inr no_new_error [of w ev] obtain ev' where ev': "x = Inr ev'"
        by (cases x) auto
      with Some Inr origin have "ev_source ev' = ev_source ev" "ev_timestamp ev' = ev_timestamp ev"
        by auto
      with Cons Inr Some ev' show ?thesis by (simp add: case_prod_unfold)
    qed
  qed
qed

lemma run_stage_length: "length (snd (run_stage st w xs)) \<le> length xs"
proof (induction xs arbitrary: w)
  case (Cons r rs)
  then show ?case by (auto simp: case_prod_unfold split: option.splits intro: le_SucI)
qed simp

lemma run_stage_shape:
  "\<exists>b out. (\<forall>w r. st w r = (if b r then fire w else w, out r))
     \<and> (\<forall>w xs. run_stage st w xs = (if list_ex b xs then fire w else w, List.map_filter out xs))"
proof -
  from shape have "\<forall>r. \<exists>p. \<forall>w. st w r = (if fst p then fire w else w, snd p)"
    by (metis fst_conv snd_conv)
  then obtain p where "\<And>r w. st w r = (if fst (p r) then fire w else w, snd (p r))"
    by metis
  then show ?thesis
    using run_stage_closed [of st "\<lambda>r. fst (p r)" "\<lambda>r. snd (p r)"]
    by (intro exI [of _ "\<lambda>r. fst (p r)"] exI [of _ "\<lambda>r. snd (p r)"]) blast
qed

end

section \<open>Closure under composition\<close>

lemma id_stage_contract: "stage_contract id_stage"
  by unfold_locales (auto simp: id_stage_def)

lemma map_ok_stage_contract:
  assumes "\<And>ev. ev_source (f ev) = ev_source ev \<and> ev_timestamp (f ev) = ev_timestamp ev"
  shows "stage_contract (map_ok_stage f)"
  by unfold_locales (auto simp: map_ok_stage_def assms split: sum.splits)

lemma watch_stage_contract: "stage_contract (watch_stage P)"
proof
  fix r
  show "\<exists>b out. \<forall>w. watch_stage P w r = (if b then fire w else w, out)"
    by (cases r) (auto simp: watch_stage_def)
qed (auto simp: watch_stage_def)

lemma compose_stage_contract:
  assumes "stage_contract a" and "stage_contract b"
  shows "stage_contract (compose_stage a b)"
proof -
  note a_laws = stage_contract.shape [OF assms(1)] stage_contract.err_pass [OF assms(1)]
    stage_contract.no_new_error [OF assms(1)] stage_contract.origin [OF assms(1)]
  note b_laws = stage_contract.shape [OF assms(2)] stage_contract.err_pass [OF assms(2)]
    stage_contract.no_new_error [OF assms(2)] stage_contract.origin [OF assms(2)]
  show ?thesis
  proof
    fix r
    obtain ba oa where a: "\<And>w. a w r = (if ba then fire w else w, oa)" using a_laws(1) by blast
    show "\<exists>c out. \<forall>w. compose_stage a b w r = (if c then fire w else w, out)"
    proof (cases oa)
      case None
      with a show ?thesis by (auto simp: compose_stage_def)
    next
      case (Some x)
      obtain bb ob where b: "\<And>w. b w x = (if bb then fire w else w, ob)" using b_laws(1) by blast
      from a b Some show ?thesis
        by (intro exI [of _ "ba \<or> bb"] exI [of _ ob]) (auto simp: compose_stage_def)
    qed
  next
    fix w e
    show "compose_stage a b w (Inl e) = (w, Some (Inl e))"
      by (simp add: compose_stage_def a_laws(2) b_laws(2))
  next
    fix w ev e
    show "snd (compose_stage a b w (Inr ev)) \<noteq> Some (Inl e)"
      using a_laws(3) [of w ev] b_laws(3)
      by (cases "a w (Inr ev)") (auto simp: compose_stage_def split: option.splits, metis sum.exhaust)
  next
    fix w ev ev'
    assume "snd (compose_stage a b w (Inr ev)) = Some (Inr ev')"
    then obtain w1 x where a1: "a w (Inr ev) = (w1, Some x)" and b1: "snd (b w1 x) = Some (Inr ev')"
      by (cases "a w (Inr ev)") (auto simp: compose_stage_def split: option.splits)
    from a1 a_laws(3) [of w ev] obtain ev1 where x: "x = Inr ev1" by (cases x) auto
    with a1 a_laws(4) [of w ev ev1] b1 b_laws(4) [of w1 ev1 ev']
    show "ev_source ev' = ev_source ev \<and> ev_timestamp ev' = ev_timestamp ev" by auto
  qed
qed

lemma stage_when_contract: "stage_contract st \<Longrightarrow> stage_contract (stage_when c st)"
  by (simp add: stage_when_def id_stage_contract)

text \<open>
  Running a composed stage item by item gives the same items and the same final watch state
  as running the first stage over the whole stream and then the second.
\<close>

lemma run_stage_compose:
  assumes "stage_contract a" and "stage_contract b"
  shows "run_stage (compose_stage a b) w xs
     = (case run_stage a w xs of (w1, ys) \<Rightarrow> run_stage b w1 ys)"
proof -
  obtain ba oa where a: "\<And>w r. a w r = (if ba r then fire w else w, oa r)"
    and ra: "\<And>w xs. run_stage a w xs = (if list_ex ba xs then fire w else w, List.map_filter oa xs)"
    using stage_contract.run_stage_shape [OF assms(1)] by blast
  obtain bb ob where b: "\<And>w r. b w r = (if bb r then fire w else w, ob r)"
    and rb: "\<And>w xs. run_stage b w xs = (if list_ex bb xs then fire w else w, List.map_filter ob xs)"
    using stage_contract.run_stage_shape [OF assms(2)] by blast
  let ?c = "\<lambda>r. ba r \<or> (\<exists>x. oa r = Some x \<and> bb x)"
  have "compose_stage a b w r = (if ?c r then fire w else w, Option.bind (oa r) ob)" for w r
    by (cases "oa r") (auto simp: compose_stage_def a b)
  then have "run_stage (compose_stage a b) w xs
      = (if list_ex ?c xs then fire w else w, List.map_filter (\<lambda>r. Option.bind (oa r) ob) xs)"
    by (rule run_stage_closed)
  moreover have "list_ex ?c xs \<longleftrightarrow> list_ex ba xs \<or> list_ex bb (List.map_filter oa xs)"
    unfolding list_ex_map_filter by (auto simp: list_ex_iff)
  ultimately show ?thesis
    by (auto simp: ra rb map_filter_bind)
qed

section \<open>The stages keep the contract\<close>

lemma json_annotate_event_frame [simp]:
  "ev_source (json_annotate_event lib j ev) = ev_source ev"
  "ev_timestamp (json_annotate_event lib j ev) = ev_timestamp ev"
  "ev_message (json_annotate_event lib j ev) = ev_message ev"
  "ev_level (json_annotate_event lib j ev) = ev_level ev"
  by (auto simp: json_annotate_event_def split: option.splits)

lemma level_classify_event_frame [simp]:
  "ev_source (level_classify_event lib k ev) = ev_source ev"
  "ev_timestamp (level_classify_event lib k ev) = ev_timestamp ev"
  "ev_message (level_classify_event lib k ev) = ev_message ev"
  "ev_structured (level_classify_event lib k ev) = ev_structured ev"
  by (auto simp: level_classify_event_def split: option.splits)

lemma color_assign_event_frame [simp]:
  "ev_source (color_assign_event sea opts ev) = ev_source ev"
  "ev_timestamp (color_assign_event sea opts ev) = ev_timestamp ev"
  "ev_message (color_assign_event sea opts ev) = ev_message ev"
  "ev_level (color_assign_event sea opts ev) = ev_level ev"
  "ev_structured (color_assign_event sea opts ev) = ev_structured ev"
  by (auto simp: color_assign_event_def Let_def)

interpretation include_exclude: stage_contract "include_exclude incl excl"
  for incl excl
  by unfold_locales (auto simp: include_exclude_def split: sum.splits if_splits)

interpretation json_annotate: stage_contract "json_annotate lib use_jaq_val" for lib use_jaq_val
  unfolding json_annotate_def by (rule map_ok_stage_contract) simp

interpretation level_classify: stage_contract "level_classify lib level_key" for lib level_key
  unfolding level_classify_def by (rule map_ok_stage_contract) simp

interpretation exit_watch_message: stage_contract "exit_watch_message patterns" for patterns
  unfolding exit_watch_message_def by (rule watch_stage_contract)

interpretation exit_watch_level: stage_contract "exit_watch_level min_level" for min_level
  unfolding exit_watch_level_def by (rule watch_stage_contract)

lemma jq_evaluate_event_ok:
  "jq_evaluate_event lib f mode ev = Some x \<Longrightarrow>
   \<exists>ev'. x = Inr ev' \<and> ev_source ev' = ev_source ev \<and> ev_timestamp ev' = ev_timestamp ev"
  by (auto simp: jq_evaluate_event_def run_filter_def
      split: option.splits query_mode.splits if_splits)

interpretation jq_evaluate: stage_contract "jq_evaluate lib f mode" for lib f mode
proof
  fix r w e ev ev'
  show "\<exists>b out. \<forall>w. jq_evaluate lib f mode w r = (if b then fire w else w, out)"
    by (auto simp: jq_evaluate_def)
  show "jq_evaluate lib f mode w (Inl e) = (w, Some (Inl e))"
    by (simp add: jq_evaluate_def)
  show "snd (jq_evaluate lib f mode w (Inr ev)) \<noteq> Some (Inl e)"
    by (auto simp: jq_evaluate_def dest: jq_evaluate_event_ok)
  show "snd (jq_evaluate lib f mode w (Inr ev)) = Some (Inr ev') \<Longrightarrow>
      ev_source ev' = ev_source ev \<and> ev_timestamp ev' = ev_timestamp ev"
    by (auto simp: jq_evaluate_def dest: jq_evaluate_event_ok)
qed

interpretation color_assign: stage_contract "color_assign sea opts" for sea opts
  unfolding color_assign_def by (rule map_ok_stage_contract) simp

end
