(* ===== verification/Pipeline.thy ===== *)
theory Pipeline
  imports Stage_Contract
begin

text \<open>
  The wiring of the stages: the stage order of \<open>pipeline/stage_order.rs\<close>, \<open>apply_pipeline\<close> and
  \<open>PipelineSpecBuilder\<close> of \<open>runtime/spec.rs\<close>, and what a whole pipeline does to an event and
  to a stream of events.
\<close>

section \<open>Stage order\<close>

record pipeline_stage_order =
  so_exit_on_message_before_filters :: bool
  so_include_before_container :: bool
  so_include_after_classify_before_transform :: bool
  so_include_after_transform :: bool

fun resolve_stage_order :: "filter_on \<Rightarrow> bool \<Rightarrow> bool \<Rightarrow> pipeline_stage_order" where
  "resolve_stage_order Original has_exit_on_message has_exit_on_level =
     \<lparr>so_exit_on_message_before_filters = has_exit_on_message,
      so_include_before_container = (\<not> has_exit_on_level),
      so_include_after_classify_before_transform = has_exit_on_level,
      so_include_after_transform = False\<rparr>"
| "resolve_stage_order Transformed has_exit_on_message has_exit_on_level =
     \<lparr>so_exit_on_message_before_filters = False,
      so_include_before_container = False,
      so_include_after_classify_before_transform = False,
      so_include_after_transform = True\<rparr>"

section \<open>The pipeline\<close>

record pipeline_stages =
  pl_includes :: "regex list"
  pl_excludes :: "regex list"
  pl_filter_on :: filter_on
  pl_jq :: "(jq_filter \<times> query_mode) option"
  pl_level_key :: "string option"
  pl_color_assign :: color_assign_opts
  pl_exit_on :: "regex list"
  pl_exit_on_level :: "exit_on_level option"
  pl_needs_json_annotation :: bool

definition needs_json_annotation :: "(jq_filter \<times> query_mode) option \<Rightarrow> string option \<Rightarrow> bool" where
  "needs_json_annotation jq level_key \<longleftrightarrow> jq \<noteq> None \<or> level_key \<noteq> None"

definition needs_include_exclude :: "regex list \<Rightarrow> regex list \<Rightarrow> bool" where
  "needs_include_exclude includes excludes \<longleftrightarrow> includes \<noteq> [] \<or> excludes \<noteq> []"

definition needs_color_assign :: "color_assign_opts \<Rightarrow> bool" where
  "needs_color_assign opts \<longleftrightarrow> ca_pod_colors opts \<or> ca_container_colors opts"

text \<open>The stages in the order \<open>apply_pipeline\<close> wraps the stream in them.\<close>

definition pipeline_list :: "json_lib \<Rightarrow> (string \<Rightarrow> u64) \<Rightarrow> pipeline_stages \<Rightarrow> stage list" where
  "pipeline_list lib sea p =
     (let order = resolve_stage_order (pl_filter_on p) (pl_exit_on p \<noteq> [])
                    (pl_exit_on_level p \<noteq> None);
          filt = include_exclude (pl_includes p) (pl_excludes p);
          needs_filt = needs_include_exclude (pl_includes p) (pl_excludes p)
      in [stage_when (so_exit_on_message_before_filters order) (exit_watch_message (pl_exit_on p)),
          stage_when (so_include_before_container order \<and> needs_filt) filt,
          stage_when (\<not> so_exit_on_message_before_filters order \<and> pl_exit_on p \<noteq> [])
            (exit_watch_message (pl_exit_on p)),
          stage_when (pl_needs_json_annotation p) (json_annotate lib (pl_jq p \<noteq> None)),
          (case pl_level_key p of None \<Rightarrow> id_stage | Some key \<Rightarrow> level_classify lib (Some key)),
          (case pl_exit_on_level p of None \<Rightarrow> id_stage | Some lv \<Rightarrow> exit_watch_level lv),
          stage_when (so_include_after_classify_before_transform order \<and> needs_filt) filt,
          (case pl_jq p of None \<Rightarrow> id_stage | Some (f, mode) \<Rightarrow> jq_evaluate lib f mode),
          stage_when (so_include_after_transform order \<and> needs_filt) filt,
          stage_when (needs_color_assign (pl_color_assign p)) (color_assign sea (pl_color_assign p))])"

definition apply_pipeline :: "json_lib \<Rightarrow> (string \<Rightarrow> u64) \<Rightarrow> pipeline_stages \<Rightarrow> stage" where
  "apply_pipeline lib sea p = foldr compose_stage (pipeline_list lib sea p) id_stage"

section \<open>The builder\<close>

record pipeline_spec_builder =
  pb_includes :: "regex list"
  pb_excludes :: "regex list"
  pb_filter_on :: filter_on
  pb_jq :: "(jq_filter \<times> query_mode) option"
  pb_level_key :: "string option"
  pb_color_assign :: color_assign_opts
  pb_exit_on :: "regex list"
  pb_exit_on_level :: "exit_on_level option"

definition builder_default :: pipeline_spec_builder where
  "builder_default =
     \<lparr>pb_includes = [], pb_excludes = [], pb_filter_on = Original, pb_jq = None,
      pb_level_key = None,
      pb_color_assign = \<lparr>ca_pod_colors = False, ca_container_colors = False, ca_diff_container = False\<rparr>,
      pb_exit_on = [], pb_exit_on_level = None\<rparr>"

definition builder_build :: "pipeline_spec_builder \<Rightarrow> pipeline_stages" where
  "builder_build b =
     \<lparr>pl_includes = pb_includes b, pl_excludes = pb_excludes b, pl_filter_on = pb_filter_on b,
      pl_jq = pb_jq b, pl_level_key = pb_level_key b, pl_color_assign = pb_color_assign b,
      pl_exit_on = pb_exit_on b, pl_exit_on_level = pb_exit_on_level b,
      pl_needs_json_annotation = needs_json_annotation (pb_jq b) (pb_level_key b)\<rparr>"

definition with_includes :: "regex list \<Rightarrow> pipeline_spec_builder \<Rightarrow> pipeline_spec_builder" where
  "with_includes patterns b = b\<lparr>pb_includes := patterns\<rparr>"

definition with_excludes :: "regex list \<Rightarrow> pipeline_spec_builder \<Rightarrow> pipeline_spec_builder" where
  "with_excludes patterns b = b\<lparr>pb_excludes := patterns\<rparr>"

definition with_filter_on :: "filter_on \<Rightarrow> pipeline_spec_builder \<Rightarrow> pipeline_spec_builder" where
  "with_filter_on filt_on b = b\<lparr>pb_filter_on := filt_on\<rparr>"

definition with_jq :: "(jq_filter \<times> query_mode) option \<Rightarrow> pipeline_spec_builder \<Rightarrow> pipeline_spec_builder" where
  "with_jq jq b = b\<lparr>pb_jq := jq\<rparr>"

definition with_level_key :: "string option \<Rightarrow> pipeline_spec_builder \<Rightarrow> pipeline_spec_builder" where
  "with_level_key level_key b = b\<lparr>pb_level_key := level_key\<rparr>"

definition with_color_assign :: "color_assign_opts \<Rightarrow> pipeline_spec_builder \<Rightarrow> pipeline_spec_builder" where
  "with_color_assign opts b = b\<lparr>pb_color_assign := opts\<rparr>"

definition with_exit_on :: "regex list \<Rightarrow> pipeline_spec_builder \<Rightarrow> pipeline_spec_builder" where
  "with_exit_on patterns b = b\<lparr>pb_exit_on := patterns\<rparr>"

definition with_exit_on_level :: "exit_on_level option \<Rightarrow> pipeline_spec_builder \<Rightarrow> pipeline_spec_builder" where
  "with_exit_on_level level b = b\<lparr>pb_exit_on_level := level\<rparr>"

lemmas builder_defs = with_includes_def with_excludes_def with_filter_on_def with_jq_def
  with_level_key_def with_color_assign_def with_exit_on_def with_exit_on_level_def

section \<open>The pipeline keeps the stage contract\<close>

lemma foldr_compose_contract:
  "\<forall>st \<in> set sts. stage_contract st \<Longrightarrow> stage_contract (foldr compose_stage sts id_stage)"
  by (induction sts) (auto intro: id_stage_contract compose_stage_contract)

lemma pipeline_list_contract: "st \<in> set (pipeline_list lib sea p) \<Longrightarrow> stage_contract st"
  by (auto simp: pipeline_list_def Let_def
      intro!: stage_when_contract id_stage_contract exit_watch_message.stage_contract_axioms
        include_exclude.stage_contract_axioms json_annotate.stage_contract_axioms
        level_classify.stage_contract_axioms exit_watch_level.stage_contract_axioms
        jq_evaluate.stage_contract_axioms color_assign.stage_contract_axioms
      split: option.splits prod.splits)

interpretation apply_pipeline: stage_contract "apply_pipeline lib sea p" for lib sea p
  unfolding apply_pipeline_def
  by (rule foldr_compose_contract) (blast intro: pipeline_list_contract)

section \<open>One event through the pipeline\<close>

definition classified :: "json_lib \<Rightarrow> pipeline_stages \<Rightarrow> log_event \<Rightarrow> log_event" where
  "classified lib p ev =
     (let ev1 = (if pl_needs_json_annotation p then json_annotate_event lib (pl_jq p \<noteq> None) ev else ev)
      in case pl_level_key p of None \<Rightarrow> ev1 | Some key \<Rightarrow> level_classify_event lib (Some key) ev1)"

definition transformed :: "json_lib \<Rightarrow> pipeline_stages \<Rightarrow> log_event \<Rightarrow> log_event option" where
  "transformed lib p ev =
     (case pl_jq p of
        None \<Rightarrow> Some ev
      | Some (f, mode) \<Rightarrow>
          Option.bind (jq_evaluate_event lib f mode ev)
            (\<lambda>x. case x of Inl _ \<Rightarrow> None | Inr ev' \<Rightarrow> Some ev'))"

definition colored :: "(string \<Rightarrow> u64) \<Rightarrow> pipeline_stages \<Rightarrow> log_event \<Rightarrow> log_event" where
  "colored sea p ev =
     (if needs_color_assign (pl_color_assign p) then color_assign_event sea (pl_color_assign p) ev
      else ev)"

definition event_fires :: "json_lib \<Rightarrow> pipeline_stages \<Rightarrow> log_event \<Rightarrow> bool" where
  "event_fires lib p ev \<longleftrightarrow>
     message_fires (pl_exit_on p) ev
     \<or> (case pl_exit_on_level p of None \<Rightarrow> False | Some lv \<Rightarrow> level_fires lv (classified lib p ev))"

definition shown :: "pipeline_stages \<Rightarrow> string \<Rightarrow> bool" where
  "shown p msg \<longleftrightarrow> keep_line (pl_includes p) (pl_excludes p) msg"

definition event_out :: "json_lib \<Rightarrow> (string \<Rightarrow> u64) \<Rightarrow> pipeline_stages \<Rightarrow> log_event \<Rightarrow> log_event option" where
  "event_out lib sea p ev =
     (case pl_filter_on p of
        Original \<Rightarrow>
          (if shown p (ev_message ev)
           then map_option (colored sea p) (transformed lib p (classified lib p ev)) else None)
      | Transformed \<Rightarrow>
          Option.bind (transformed lib p (classified lib p ev))
            (\<lambda>ev'. if shown p (ev_message ev') then Some (colored sea p ev') else None))"

lemma classified_frame [simp]:
  "ev_message (classified lib p ev) = ev_message ev"
  "ev_source (classified lib p ev) = ev_source ev"
  "ev_timestamp (classified lib p ev) = ev_timestamp ev"
  by (auto simp: classified_def Let_def split: option.splits)

lemma compose_stage_pairs:
  "compose_stage a b w r = (case snd (a w r) of None \<Rightarrow> a w r | Some x \<Rightarrow> b (fst (a w r)) x)"
  by (cases "a w r") (auto simp: compose_stage_def split: option.splits)

lemma stage_event_simps [stage_simps]:
  "id_stage w r = (w, Some r)"
  "include_exclude incl excl w (Inr ev)
     = (w, if keep_line incl excl (ev_message ev) then Some (Inr ev) else None)"
  "map_ok_stage f w (Inr ev) = (w, Some (Inr (f ev)))"
  "exit_watch_message pats w (Inr ev) = (if message_fires pats ev then fire w else w, Some (Inr ev))"
  "exit_watch_level lv w (Inr ev) = (if level_fires lv ev then fire w else w, Some (Inr ev))"
  "jq_evaluate lib q mode w (Inr ev) = (w, jq_evaluate_event lib q mode ev)"
  by (simp_all add: id_stage_def include_exclude_def map_ok_stage_def exit_watch_message_def
      exit_watch_level_def watch_stage_def jq_evaluate_def)

lemma message_fires_Nil [simp]: "\<not> message_fires [] ev"
  by (simp add: message_fires_def any_match_def)

lemma keep_line_Nil [simp]: "keep_line [] [] msg"
  by (simp add: keep_line_def any_match_def)

text \<open>The stages as they stand in the pipeline, each with its condition folded in.\<close>

lemma filter_slot:
  "stage_when (c \<and> needs_include_exclude (pl_includes p) (pl_excludes p))
     (include_exclude (pl_includes p) (pl_excludes p)) w (Inr ev)
   = (w, if c \<longrightarrow> shown p (ev_message ev) then Some (Inr ev) else None)"
  by (auto simp: stage_when_def stage_simps needs_include_exclude_def shown_def)

lemma message_slots:
  "stage_when (pl_exit_on p \<noteq> []) (exit_watch_message (pl_exit_on p)) w (Inr ev)
   = (if message_fires (pl_exit_on p) ev then fire w else w, Some (Inr ev))"
  by (auto simp: stage_when_def stage_simps)

lemma classify_slots:
  "compose_stage (stage_when (pl_needs_json_annotation p) (json_annotate lib (pl_jq p \<noteq> None)))
     (compose_stage
       (case pl_level_key p of None \<Rightarrow> id_stage | Some key \<Rightarrow> level_classify lib (Some key)) k) w (Inr ev)
   = k w (Inr (classified lib p ev))"
  by (auto simp: compose_stage_def stage_when_def stage_simps json_annotate_def level_classify_def
      classified_def Let_def split: option.splits)

lemma level_slot:
  "compose_stage (case pl_exit_on_level p of None \<Rightarrow> id_stage | Some lv \<Rightarrow> exit_watch_level lv) k w (Inr ev)
   = k (if (case pl_exit_on_level p of None \<Rightarrow> False | Some lv \<Rightarrow> level_fires lv ev) then fire w else w)
       (Inr ev)"
  by (auto simp: compose_stage_def stage_simps split: option.splits)

lemma jq_slot:
  "compose_stage (case pl_jq p of None \<Rightarrow> id_stage | Some (f, mode) \<Rightarrow> jq_evaluate lib f mode) k w (Inr ev)
   = (case transformed lib p ev of None \<Rightarrow> (w, None) | Some ev' \<Rightarrow> k w (Inr ev'))"
  by (auto simp: compose_stage_def stage_simps transformed_def
      split: option.splits prod.splits sum.splits dest: jq_evaluate_event_ok)

lemma color_slot:
  "compose_stage (stage_when (needs_color_assign (pl_color_assign p)) (color_assign sea (pl_color_assign p)))
     id_stage w (Inr ev) = (w, Some (Inr (colored sea p ev)))"
  by (auto simp: compose_stage_def stage_when_def stage_simps color_assign_def colored_def)

lemma filter_compose:
  "compose_stage (stage_when (c \<and> needs_include_exclude (pl_includes p) (pl_excludes p))
     (include_exclude (pl_includes p) (pl_excludes p))) k w (Inr ev)
   = (if c \<longrightarrow> shown p (ev_message ev) then k w (Inr ev) else (w, None))"
  by (simp add: compose_stage_def filter_slot)

lemma message_compose:
  "compose_stage (stage_when (pl_exit_on p \<noteq> []) (exit_watch_message (pl_exit_on p))) k w (Inr ev)
   = k (if message_fires (pl_exit_on p) ev then fire w else w) (Inr ev)"
  by (simp add: compose_stage_def message_slots)

lemma skip_compose:
  "compose_stage (stage_when False st) k = k"
  "compose_stage (stage_when (\<not> c \<and> c) st) k = k"
  by (auto simp: fun_eq_iff compose_stage_def stage_when_def id_stage_def)

lemma message_compose_late:
  "compose_stage (stage_when (\<not> False \<and> pl_exit_on p \<noteq> []) (exit_watch_message (pl_exit_on p))) k w (Inr ev)
   = k (if message_fires (pl_exit_on p) ev then fire w else w) (Inr ev)"
  by (simp add: message_compose)

lemmas slot_simps = filter_compose message_compose message_compose_late classify_slots level_slot
  jq_slot color_slot skip_compose

lemmas pipeline_unfold = apply_pipeline_def pipeline_list_def Let_def resolve_stage_order.simps
  pipeline_stage_order.select_convs list.map foldr.simps o_apply id_apply

text \<open>
  The whole pipeline on one event: whether the exit trigger fires, and what is passed on.
\<close>

lemma apply_pipeline_event:
  "apply_pipeline lib sea p w (Inr ev)
   = (if event_fires lib p ev then fire w else w, map_option Inr (event_out lib sea p ev))"
proof (cases "pl_filter_on p")
  case Original
  show ?thesis
    by (simp only: Original pipeline_unfold slot_simps)
      (auto simp: event_fires_def event_out_def Original split: option.splits)
next
  case Transformed
  show ?thesis
    by (simp only: Transformed pipeline_unfold slot_simps)
      (auto simp: event_fires_def event_out_def Transformed split: option.splits)
qed

section \<open>Streams through the pipeline\<close>

lemma apply_pipeline_item:
  "apply_pipeline lib sea p w r
   = (if (case r of Inl _ \<Rightarrow> False | Inr ev \<Rightarrow> event_fires lib p ev) then fire w else w,
      case r of Inl e \<Rightarrow> Some (Inl e) | Inr ev \<Rightarrow> map_option Inr (event_out lib sea p ev))"
  by (cases r) (simp_all add: apply_pipeline.err_pass apply_pipeline_event)

lemma list_ex_ok:
  "list_ex (\<lambda>r. case r of Inl _ \<Rightarrow> False | Inr ev \<Rightarrow> P ev) items
   \<longleftrightarrow> (\<exists>ev. Inr ev \<in> set items \<and> P ev)"
proof (induction items)
  case (Cons r rs)
  then show ?case by (cases r) auto
qed simp

lemmas run_pipeline_closed = run_stage_closed [of "apply_pipeline lib sea p" for lib sea p, OF apply_pipeline_item]

text \<open>
  C7: the exit triggers look at every event that enters the pipeline, whatever the
  include and exclude filters, the jq query and \<open>--filter-on\<close> do to it: after any stream the
  exit state has fired (and the root token is cancelled) exactly if some event's raw message
  matches an \<open>--exit-on\<close> pattern, or its classified level, read before any jq rewriting,
  reaches the \<open>--exit-on-level\<close> threshold.
\<close>

theorem exit_trigger_exact:
  "fst (run_stage (apply_pipeline lib sea p) w items)
   = (if \<exists>ev. Inr ev \<in> set items
          \<and> (any_match (pl_exit_on p) (ev_message ev)
             \<or> (\<exists>m lv. pl_exit_on_level p = Some m \<and> ev_level (classified lib p ev) = Some lv
                  \<and> rank m \<le> event_level_rank lv))
      then fire w else w)"
proof -
  have f: "event_fires lib p ev \<longleftrightarrow> any_match (pl_exit_on p) (ev_message ev)
      \<or> (\<exists>m lv. pl_exit_on_level p = Some m \<and> ev_level (classified lib p ev) = Some lv
           \<and> rank m \<le> event_level_rank lv)" for ev
    by (auto simp: event_fires_def message_fires_def level_fires_def split: option.splits)
  show ?thesis by (simp only: run_pipeline_closed fst_conv list_ex_ok f)
qed

text \<open>
  C8: what the pipeline emits, event by event and in order.  With \<open>--filter-on original\<close>
  a line is shown if its raw message passes \<open>-i\<close> / \<open>-e\<close>, and then transformed; with
  \<open>transformed\<close> the filters see the message jq produced.  Errors pass.
\<close>

theorem pipeline_output_exact:
  "snd (run_stage (apply_pipeline lib sea p) w items)
   = List.map_filter
       (\<lambda>r. case r of
              Inl e \<Rightarrow> Some (Inl e)
            | Inr ev \<Rightarrow>
                map_option (\<lambda>ev'. Inr (colored sea p ev'))
                  (case pl_filter_on p of
                     Original \<Rightarrow>
                       (if keep_line (pl_includes p) (pl_excludes p) (ev_message ev)
                        then transformed lib p (classified lib p ev) else None)
                   | Transformed \<Rightarrow>
                       (case transformed lib p (classified lib p ev) of
                          None \<Rightarrow> None
                        | Some ev' \<Rightarrow>
                            if keep_line (pl_includes p) (pl_excludes p) (ev_message ev')
                            then Some ev' else None)))
       items"
proof -
  have eq: "map_option Inr (event_out lib sea p ev)
     = map_option (\<lambda>ev'. Inr (colored sea p ev'))
         (case pl_filter_on p of
            Original \<Rightarrow>
              (if keep_line (pl_includes p) (pl_excludes p) (ev_message ev)
               then transformed lib p (classified lib p ev) else None)
          | Transformed \<Rightarrow>
              (case transformed lib p (classified lib p ev) of
                 None \<Rightarrow> None
               | Some ev' \<Rightarrow>
                   if keep_line (pl_includes p) (pl_excludes p) (ev_message ev')
                   then Some ev' else None))" for ev
    by (auto simp: event_out_def shown_def option.map_comp comp_def split: filter_on.splits option.splits)
  show ?thesis by (simp only: run_pipeline_closed snd_conv eq)
qed

text \<open>
  No stage loses, reorders or invents a source error, and the events that come out are a
  subsequence of those that went in, each with its own source and timestamp.
\<close>

theorem pipeline_preserves_errors_and_origin:
  "filter isl (snd (run_stage (apply_pipeline lib sea p) w items)) = filter isl items
   \<and> subseq (map (\<lambda>ev. (ev_source ev, ev_timestamp ev))
               (ok_events (snd (run_stage (apply_pipeline lib sea p) w items))))
            (map (\<lambda>ev. (ev_source ev, ev_timestamp ev)) (ok_events items))"
  by (simp add: apply_pipeline.run_stage_err_pass apply_pipeline.run_stage_origin)

text \<open>Running the stages one after another, each over the whole stream.\<close>

fun run_stages :: "stage list \<Rightarrow> exit_watch \<Rightarrow> item list \<Rightarrow> exit_watch \<times> item list" where
  "run_stages [] w xs = (w, xs)"
| "run_stages (st # sts) w xs = (case run_stage st w xs of (w1, ys) \<Rightarrow> run_stages sts w1 ys)"

lemma run_stage_id: "run_stage id_stage w xs = (w, xs)"
  by (induction xs arbitrary: w) (auto simp: id_stage_def)

lemma run_stages_foldr:
  "\<forall>st \<in> set sts. stage_contract st \<Longrightarrow>
   run_stage (foldr compose_stage sts id_stage) w xs = run_stages sts w xs"
  by (induction sts arbitrary: w xs)
    (auto simp: run_stage_id run_stage_compose foldr_compose_contract split: prod.split)

text \<open>
  Pulling events one at a time through the nested streams, as the runtime does, gives
  the same output and leaves the shared exit state the same as running every stage over the
  whole stream in turn: sharing the exit state between lazily pulled stages is harmless.
\<close>

theorem pipeline_stagewise:
  "run_stage (apply_pipeline lib sea p) w items = run_stages (pipeline_list lib sea p) w items"
  unfolding apply_pipeline_def
  by (rule run_stages_foldr) (blast intro: pipeline_list_contract)

text \<open>
  Without \<open>--level-key\<close> the \<open>--exit-on-level\<close> threshold is inert: events enter the
  pipeline without a level and no stage assigns one, so only \<open>--exit-on\<close> can fire.
\<close>

theorem exit_on_level_needs_level_key:
  assumes "pl_level_key p = None" and "\<forall>ev. Inr ev \<in> set items \<longrightarrow> ev_level ev = None"
  shows "fst (run_stage (apply_pipeline lib sea p) w items)
    = (if \<exists>ev. Inr ev \<in> set items \<and> any_match (pl_exit_on p) (ev_message ev) then fire w else w)"
proof -
  have "ev_level (classified lib p ev) = None" if "Inr ev \<in> set items" for ev
    using that assms by (simp add: classified_def)
  then have f: "(\<exists>ev. Inr ev \<in> set items \<and> event_fires lib p ev)
      \<longleftrightarrow> (\<exists>ev. Inr ev \<in> set items \<and> any_match (pl_exit_on p) (ev_message ev))"
    by (auto simp: event_fires_def message_fires_def level_fires_def split: option.splits)
  show ?thesis by (simp only: run_pipeline_closed fst_conv list_ex_ok f)
qed

theorem exit_on_level_needs_level_key_witness:
  "\<forall>lib sea w m. fst (run_stage (apply_pipeline lib sea
       (builder_build (builder_default\<lparr>pb_exit_on_level := Some XWarn\<rparr>))) w
       [Inr (mk_log_event m 0 ''{level: error}'')]) = w"
proof -
  let ?p = "builder_build (builder_default\<lparr>pb_exit_on_level := Some XWarn\<rparr>)"
  have p: "pl_level_key ?p = None" "pl_exit_on ?p = []"
    by (simp_all add: builder_build_def builder_default_def)
  then have "fst (run_stage (apply_pipeline lib sea ?p) w [Inr (mk_log_event m 0 msg)]) = w" for lib sea w m msg
    using exit_on_level_needs_level_key [of ?p "[Inr (mk_log_event m 0 msg)]" lib sea w]
    by (simp del: run_stage.simps add: mk_log_event_def any_match_def)
  then show ?thesis by blast
qed

text \<open>
  Without a jq query \<open>--filter-on original\<close> and \<open>--filter-on transformed\<close> are the same
  pipeline: same output, same exit state.
\<close>

theorem filter_on_irrelevant_without_jq:
  assumes "pl_jq p = None"
  shows "run_stage (apply_pipeline lib sea (p\<lparr>pl_filter_on := Transformed\<rparr>)) w items
       = run_stage (apply_pipeline lib sea (p\<lparr>pl_filter_on := Original\<rparr>)) w items"
proof -
  have cl: "classified lib (p\<lparr>pl_filter_on := f\<rparr>) ev = classified lib p ev" for f ev
    by (simp add: classified_def)
  have "event_fires lib (p\<lparr>pl_filter_on := Transformed\<rparr>) = event_fires lib (p\<lparr>pl_filter_on := Original\<rparr>)"
    by (simp add: fun_eq_iff event_fires_def cl split: option.split)
  moreover have "event_out lib sea (p\<lparr>pl_filter_on := Transformed\<rparr>)
      = event_out lib sea (p\<lparr>pl_filter_on := Original\<rparr>)"
    using assms by (simp add: fun_eq_iff event_out_def transformed_def shown_def colored_def cl)
  ultimately show ?thesis by (simp only: run_pipeline_closed)
qed

theorem filter_on_irrelevant_without_jq_witness:
  "\<forall>lib sea w items. run_stage (apply_pipeline lib sea (builder_build builder_default\<lparr>pl_filter_on := Transformed\<rparr>)) w items
   = run_stage (apply_pipeline lib sea (builder_build builder_default\<lparr>pl_filter_on := Original\<rparr>)) w items"
  by (intro allI, rule filter_on_irrelevant_without_jq) (simp add: builder_build_def builder_default_def)

section \<open>Levels\<close>

lemma event_level_rank_classify:
  "event_level_rank (LOther s) = event_level_rank (classify_str s)"
  by (simp add: classify_str_def)

lemma lower_literals [str_simps]:
  "to_ascii_lowercase ''trace'' = ''trace''" "to_ascii_lowercase ''debug'' = ''debug''"
  "to_ascii_lowercase ''info'' = ''info''" "to_ascii_lowercase ''warn'' = ''warn''"
  "to_ascii_lowercase ''warning'' = ''warning''" "to_ascii_lowercase ''error'' = ''error''"
  "to_ascii_lowercase ''err'' = ''err''" "to_ascii_lowercase ''fatal'' = ''fatal''"
  by (simp_all add: to_ascii_lowercase_def ascii_lower_def byte_of_def)

text \<open>
  The threshold parser and the level classifier agree: if \<open>--exit-on-level\<close> reads
  \<open>raw\<close> as the level \<open>l\<close>, a line whose level field is that text fires a threshold \<open>m\<close> exactly
  if \<open>m\<close> is at most \<open>l\<close>, whether the level was classified or kept as other text.
\<close>

theorem exit_on_level_threshold:
  assumes "parse_exit_on_level raw = Inr l"
  shows "(level_fires m (ev\<lparr>ev_level := Some (classify_str (trim raw))\<rparr>) \<longleftrightarrow> m \<le> l)
       \<and> (level_fires m (ev\<lparr>ev_level := Some (LOther (trim raw))\<rparr>) \<longleftrightarrow> m \<le> l)"
proof -
  have r: "event_level_rank (classify_str (trim raw)) = rank l"
    using assms
    by (auto simp: parse_exit_on_level_def Let_def classify_str_def eq_ignore_ascii_case_def str_simps
        split: if_splits)
  have f: "level_fires m (ev\<lparr>ev_level := Some lv\<rparr>) \<longleftrightarrow> rank m \<le> event_level_rank lv" for lv
    by (simp add: level_fires_def)
  show ?thesis
    by (simp only: f event_level_rank_classify r less_eq_exit_on_level_def simp_thms)
qed

theorem exit_on_level_threshold_witness:
  "\<forall>m. level_fires XWarn (mk_log_event m 0 []\<lparr>ev_level := Some (classify_str (trim '' FATAL ''))\<rparr>)"
proof -
  have t: "parse_exit_on_level '' FATAL '' = Inr XError" by code_simp
  have "XWarn \<le> XError" by (simp add: less_eq_exit_on_level_def)
  with exit_on_level_threshold [OF t, of XWarn] show ?thesis by blast
qed

section \<open>Palette slots\<close>

text \<open>
  The palette slots computed once when a stream is attached make the color stage the
  identity on the stream's events, for every color option; every slot it assigns is below 16.
\<close>

theorem attach_palette_covers_color_assign:
  "color_assign_event sea opts (mk_log_event (apply_palette_to_meta sea opts meta) ts msg)
     = mk_log_event (apply_palette_to_meta sea opts meta) ts msg
   \<and> (case ev_palette_index (color_assign_event sea opts (ev\<lparr>ev_palette_index := None\<rparr>)) of
        None \<Rightarrow> True | Some i \<Rightarrow> unat i < 16)"
  by (auto simp: color_assign_event_def mk_log_event_def apply_palette_to_meta_def Let_def
      stable_palette_index_less)

end
