(* ===== verification/Resource.thy ===== *)
theory Resource
  imports Pod_Log Stages "HOL-Library.Multiset"
begin

text \<open>
  Query arguments and the selectors they become: \<open>regex_limits.rs\<close>, \<open>discovery/resource.rs\<close>,
  \<open>discovery/workload_selector.rs\<close> and \<open>discovery/pod_list.rs\<close>.  \<open>regex_new\<close> stands for
  \<open>Regex::new\<close> with the text of its error, and \<open>workload_api\<close> for the \<open>GET\<close> calls to the API
  server, reduced to the \<open>spec\<close> of the returned objects.
\<close>

section \<open>Regular expressions of the user (\<open>regex_limits.rs\<close>)\<close>

type_synonym regex_lib = "string \<Rightarrow> string + regex"

definition max_user_regex_pattern_len :: nat where
  "max_user_regex_pattern_len = 1024"

definition compile_user_regex :: "regex_lib \<Rightarrow> string \<Rightarrow> string \<Rightarrow> string + regex" where
  "compile_user_regex regex_new label pattern =
     (if length pattern > max_user_regex_pattern_len
      then Inl (label @ '': pattern exceeds '' @ show_nat max_user_regex_pattern_len @ '' characters'')
      else map_err (\<lambda>e. ''invalid '' @ label @ '' regex: '' @ e) (regex_new pattern))"

lemma compile_user_regex_ok_iff:
  "compile_user_regex regex_new label pattern = Inr r \<longleftrightarrow>
     length pattern \<le> 1024 \<and> regex_new pattern = Inr r"
  by (simp add: compile_user_regex_def max_user_regex_pattern_len_def not_le [symmetric])

section \<open>Queries (\<open>discovery/resource.rs\<close>)\<close>

datatype resource_kind =
  RPod | RReplicationController | RService | RDaemonSet | RDeployment | RReplicaSet
| RStatefulSet | RJob

datatype query = PodNameRegex string | LabelSelectorQ resource_kind string

datatype query_parse_error = QRegex string | UserRegex string | UnknownKind string

fun query_parse_error_display :: "query_parse_error \<Rightarrow> string" where
  "query_parse_error_display (QRegex e) = ''invalid regex: '' @ e"
| "query_parse_error_display (UserRegex e) = e"
| "query_parse_error_display (UnknownKind k) = ''unknown resource kind: '' @ k"

definition resource_kind_of :: "string \<Rightarrow> resource_kind option" where
  "resource_kind_of s =
     (if s \<in> {''pod'', ''po''} then Some RPod
      else if s \<in> {''replicationcontroller'', ''rc''} then Some RReplicationController
      else if s \<in> {''service'', ''svc''} then Some RService
      else if s \<in> {''daemonset'', ''ds''} then Some RDaemonSet
      else if s \<in> {''deployment'', ''deploy''} then Some RDeployment
      else if s \<in> {''replicaset'', ''rs''} then Some RReplicaSet
      else if s \<in> {''statefulset'', ''sts''} then Some RStatefulSet
      else if s = ''job'' then Some RJob
      else None)"

definition parse_query :: "regex_lib \<Rightarrow> string \<Rightarrow> query_parse_error + query" where
  "parse_query regex_new arg =
     (case split_once (CHR ''/'') arg of
        Some (kind_s, name) \<Rightarrow>
          (case resource_kind_of kind_s of
             Some kind \<Rightarrow> Inr (LabelSelectorQ kind name)
           | None \<Rightarrow> Inl (UnknownKind kind_s))
      | None \<Rightarrow>
          bind_result (map_err UserRegex (compile_user_regex regex_new ''pod query'' arg))
            (\<lambda>_. Inr (PodNameRegex arg)))"

definition label_selector_for :: "resource_kind \<Rightarrow> string \<Rightarrow> string" where
  "label_selector_for kind name =
     (case kind of RPod \<Rightarrow> ''metadata.name='' @ name | _ \<Rightarrow> ''app='' @ name)"

lemma label_selector_for_other: "kind \<noteq> RPod \<Longrightarrow> label_selector_for kind name = ''app='' @ name"
  by (simp add: label_selector_for_def split: resource_kind.split)

section \<open>Workload selectors (\<open>discovery/workload_selector.rs\<close>)\<close>

text \<open>The fields of the workload objects the code reads.\<close>

record label_selector_requirement =
  lsr_key :: string
  lsr_operator :: string
  lsr_values :: "string list option"

record label_selector =
  ls_match_labels :: "labels option"
  ls_match_expressions :: "label_selector_requirement list option"

record pod_template_spec =
  pt_metadata_labels :: "labels option option"

record workload_spec =
  ws_selector :: label_selector
  ws_template :: pod_template_spec

record replica_set_spec =
  rss_selector :: label_selector
  rss_template :: "pod_template_spec option"

record job_spec =
  js_selector :: "label_selector option"
  js_template :: pod_template_spec

record rc_spec =
  rcs_selector :: "labels option"
  rcs_template :: "pod_template_spec option"

record workload_api =
  get_deployment :: "string \<Rightarrow> string \<Rightarrow> kube_error + workload_spec option"
  get_stateful_set :: "string \<Rightarrow> string \<Rightarrow> kube_error + workload_spec option"
  get_daemon_set :: "string \<Rightarrow> string \<Rightarrow> kube_error + workload_spec option"
  get_replica_set :: "string \<Rightarrow> string \<Rightarrow> kube_error + replica_set_spec option"
  get_job :: "string \<Rightarrow> string \<Rightarrow> kube_error + job_spec option"
  get_service :: "string \<Rightarrow> string \<Rightarrow> kube_error + labels option option"
  get_replication_controller :: "string \<Rightarrow> string \<Rightarrow> kube_error + rc_spec option"

definition label_pair :: "string \<times> string \<Rightarrow> string" where
  "label_pair kv = fst kv @ ''='' @ snd kv"

definition btree_to_label_selector :: "labels \<Rightarrow> string" where
  "btree_to_label_selector m = join '','' (map label_pair m)"

definition fallback_app_selector :: "resource_kind \<Rightarrow> string \<Rightarrow> string" where
  "fallback_app_selector kind workload_name = ''app='' @ workload_name"

definition match_expression_fragment :: "label_selector_requirement \<Rightarrow> string option" where
  "match_expression_fragment req =
     (let key = lsr_key req; operator = lsr_operator req in
      if operator = ''In'' \<or> operator = ''NotIn'' then
        (case lsr_values req of
           None \<Rightarrow> None
         | Some values \<Rightarrow>
             if values = [] then None
             else Some (key @ '' '' @ (if operator = ''In'' then ''in'' else ''notin'')
                    @ '' ('' @ join '','' (sort values) @ '')''))
      else if operator = ''Exists'' then Some key
      else if operator = ''DoesNotExist'' then Some (''!'' @ key)
      else None)"

definition label_selector_from_meta ::
  "label_selector \<Rightarrow> pod_template_spec option \<Rightarrow> resource_kind \<Rightarrow> string \<Rightarrow> string" where
  "label_selector_from_meta ls template kind workload_name =
     (let labels = unwrap_or [] (ls_match_labels ls);
          exprs = unwrap_or [] (ls_match_expressions ls);
          tlabels = (case Option.bind template pt_metadata_labels of
                       Some (Some labs) \<Rightarrow> labs | _ \<Rightarrow> []);
          parts = map label_pair labels @ List.map_filter match_expression_fragment exprs
            @ (if labels = [] \<and> exprs = [] then map label_pair tlabels else [])
      in if parts = [] then fallback_app_selector kind workload_name
         else join '','' (sort parts))"

definition workload_selector ::
  "resource_kind \<Rightarrow> string \<Rightarrow> kube_error + workload_spec option \<Rightarrow> kube_error + string" where
  "workload_selector kind name got =
     bind_result got (\<lambda>obj. case obj of
         None \<Rightarrow> Inr (label_selector_for kind name)
       | Some spec \<Rightarrow>
           Inr (label_selector_from_meta (ws_selector spec) (Some (ws_template spec)) kind name))"

definition deployment_selector :: "workload_api \<Rightarrow> string \<Rightarrow> string \<Rightarrow> kube_error + string" where
  "deployment_selector api ns name = workload_selector RDeployment name (get_deployment api ns name)"

definition statefulset_selector :: "workload_api \<Rightarrow> string \<Rightarrow> string \<Rightarrow> kube_error + string" where
  "statefulset_selector api ns name = workload_selector RStatefulSet name (get_stateful_set api ns name)"

definition daemonset_selector :: "workload_api \<Rightarrow> string \<Rightarrow> string \<Rightarrow> kube_error + string" where
  "daemonset_selector api ns name = workload_selector RDaemonSet name (get_daemon_set api ns name)"

definition replicaset_selector :: "workload_api \<Rightarrow> string \<Rightarrow> string \<Rightarrow> kube_error + string" where
  "replicaset_selector api ns name =
     bind_result (get_replica_set api ns name) (\<lambda>obj. case obj of
         None \<Rightarrow> Inr (label_selector_for RReplicaSet name)
       | Some spec \<Rightarrow>
           Inr (label_selector_from_meta (rss_selector spec) (rss_template spec) RReplicaSet name))"

definition job_selector :: "workload_api \<Rightarrow> string \<Rightarrow> string \<Rightarrow> kube_error + string" where
  "job_selector api ns name =
     bind_result (get_job api ns name) (\<lambda>obj. case obj of
         None \<Rightarrow> Inr (label_selector_for RJob name)
       | Some spec \<Rightarrow>
           (case js_selector spec of
              Some ls \<Rightarrow> Inr (label_selector_from_meta ls (Some (js_template spec)) RJob name)
            | None \<Rightarrow> Inr (label_selector_for RJob name)))"

text \<open>\<open>get_service\<close> gives the selector of the service's spec, if there is a spec.\<close>

definition service_selector :: "workload_api \<Rightarrow> string \<Rightarrow> string \<Rightarrow> kube_error + string" where
  "service_selector api ns name =
     bind_result (get_service api ns name) (\<lambda>obj.
       let selector = unwrap_or [] (Option.bind obj (\<lambda>s. s)) in
       if selector = [] then Inr (label_selector_for RService name)
       else Inr (btree_to_label_selector selector))"

definition replication_controller_selector ::
  "workload_api \<Rightarrow> string \<Rightarrow> string \<Rightarrow> kube_error + string" where
  "replication_controller_selector api ns name =
     bind_result (get_replication_controller api ns name) (\<lambda>obj. case obj of
         None \<Rightarrow> Inr (label_selector_for RReplicationController name)
       | Some spec \<Rightarrow>
           (let selector = unwrap_or [] (rcs_selector spec);
                selector = (if selector = []
                  then (case Option.bind (rcs_template spec) pt_metadata_labels of
                          Some (Some labels) \<Rightarrow> labels | _ \<Rightarrow> selector)
                  else selector)
            in if selector = [] then Inr (label_selector_for RReplicationController name)
               else Inr (btree_to_label_selector selector)))"

definition resolve_label_selector_for_kind_query ::
  "workload_api \<Rightarrow> resource_kind \<Rightarrow> string \<Rightarrow> string option \<Rightarrow> kube_error + string" where
  "resolve_label_selector_for_kind_query api kind name single_namespace =
     (if kind = RPod then Inr (label_selector_for kind name)
      else case single_namespace of
        None \<Rightarrow> Inr (label_selector_for kind name)
      | Some ns \<Rightarrow>
          (case kind of
             RPod \<Rightarrow> Inr (label_selector_for kind name)
           | RDeployment \<Rightarrow> deployment_selector api ns name
           | RStatefulSet \<Rightarrow> statefulset_selector api ns name
           | RDaemonSet \<Rightarrow> daemonset_selector api ns name
           | RReplicaSet \<Rightarrow> replicaset_selector api ns name
           | RJob \<Rightarrow> job_selector api ns name
           | RService \<Rightarrow> service_selector api ns name
           | RReplicationController \<Rightarrow> replication_controller_selector api ns name))"

definition unify_label_selectors :: "string list \<Rightarrow> resource_kind \<Rightarrow> string \<Rightarrow> string" where
  "unify_label_selectors selectors kind name =
     (if selectors = [] then label_selector_for kind name
      else case remdups_adj (sort selectors) of
        [unique] \<Rightarrow> unique
      | _ \<Rightarrow> label_selector_for kind name)"

definition resolve_label_selector_for_namespaces ::
  "workload_api \<Rightarrow> resource_kind \<Rightarrow> string \<Rightarrow> string list \<Rightarrow> bool \<Rightarrow> kube_error + string" where
  "resolve_label_selector_for_namespaces api kind name namespaces all_namespaces =
     (if kind = RPod then Inr (label_selector_for kind name)
      else if all_namespaces then Inr (label_selector_for kind name)
      else case namespaces of
        [] \<Rightarrow> Inr (label_selector_for kind name)
      | [ns] \<Rightarrow> resolve_label_selector_for_kind_query api kind name (Some ns)
      | _ \<Rightarrow>
          (case collect_results (\<lambda>ns. resolve_label_selector_for_kind_query api kind name (Some ns)) namespaces of
             Inr selectors \<Rightarrow> Inr (unify_label_selectors selectors kind name)
           | Inl _ \<Rightarrow> Inr (label_selector_for kind name)))"

lemma remdups_adj_sort_singleton:
  fixes xs :: "'a::linorder list"
  shows "remdups_adj (sort xs) = [x] \<longleftrightarrow> set xs = {x}"
proof
  assume "remdups_adj (sort xs) = [x]"
  then have "set (remdups_adj (sort xs)) = {x}" by simp
  then show "set xs = {x}" by simp
next
  assume a: "set xs = {x}"
  then have "replicate (length (sort xs)) x = sort xs" by (intro replicate_length_same) simp
  moreover from a have "xs \<noteq> []" by auto
  ultimately show "remdups_adj (sort xs) = [x]"
    by (metis length_0_conv length_sort remdups_adj_replicate)
qed

lemma unify_label_selectors_eq:
  "unify_label_selectors selectors kind name =
     (if \<exists>s. set selectors = {s} then hd selectors else label_selector_for kind name)"
proof (cases "\<exists>s. set selectors = {s}")
  case True
  then obtain s where s: "set selectors = {s}" by blast
  then have r: "remdups_adj (sort selectors) = [s]" by (rule iffD2 [OF remdups_adj_sort_singleton])
  have ne: "selectors \<noteq> []"
  proof
    assume "selectors = []"
    with s show False by simp
  qed
  then have "hd selectors \<in> set selectors" by (rule hd_in_set)
  then have "hd selectors = s" unfolding s by (rule singletonD)
  with r ne s show ?thesis by (simp add: unify_label_selectors_def)
next
  case False
  then have "remdups_adj (sort selectors) \<noteq> [s]" for s by (simp add: remdups_adj_sort_singleton)
  with False show ?thesis by (auto simp: unify_label_selectors_def split: list.split)
qed

lemma collect_results_map:
  "collect_results f xs = Inr ys \<longleftrightarrow> map f xs = map Inr ys"
  by (simp add: collect_results_Inr_iff list_eq_iff_nth_eq list_all2_conv_all_nth) auto

text \<open>
  One selector for several namespaces: outside the cases that never ask the API server, a
  single namespace gives its workload's selector or its error, and several namespaces never
  fail: when all of them resolve to one and the same selector it is used, and in every other
  case, errors included, the selector is \<open>app=<name>\<close>.
\<close>

theorem resolve_namespaces_spec:
  "resolve_label_selector_for_namespaces api kind name nss all_ns =
     (if kind = RPod \<or> all_ns \<or> nss = [] then Inr (label_selector_for kind name)
      else if length nss = 1 then resolve_label_selector_for_kind_query api kind name (Some (hd nss))
      else if \<exists>s. (\<lambda>ns. resolve_label_selector_for_kind_query api kind name (Some ns)) ` set nss = {Inr s}
        then resolve_label_selector_for_kind_query api kind name (Some (hd nss))
      else Inr (''app='' @ name))"
proof (cases "kind = RPod \<or> all_ns \<or> length nss < 2")
  case True
  then show ?thesis
    by (auto simp: resolve_label_selector_for_namespaces_def less_2_cases_iff length_Suc_conv)
next
  case False
  let ?f = "\<lambda>ns. resolve_label_selector_for_kind_query api kind name (Some ns)"
  from False obtain a b r where nss: "nss = a # b # r"
    by (cases nss; cases "tl nss") auto
  have res: "resolve_label_selector_for_namespaces api kind name nss all_ns =
      (case collect_results ?f nss of Inr sels \<Rightarrow> Inr (unify_label_selectors sels kind name)
       | Inl _ \<Rightarrow> Inr (''app='' @ name))"
    using False nss
    by (simp add: resolve_label_selector_for_namespaces_def label_selector_for_other cong: sum.case_cong del: collect_results.simps)
  show ?thesis
  proof (cases "collect_results ?f nss")
    case (Inl e)
    then have "\<exists>ns \<in> set nss. \<forall>s. ?f ns \<noteq> Inr s"
      using collect_results_ok_iff [of ?f nss] by auto
    then have "\<not> (\<exists>s. ?f ` set nss = {Inr s})" by blast
    with res Inl False nss show ?thesis by auto
  next
    case (Inr sels)
    then have m: "map ?f nss = map Inr sels" by (simp add: collect_results_map)
    then have "?f ` set nss = Inr ` set sels" and "?f a = Inr (hd sels)" and "sels \<noteq> []"
      using nss by (metis list.set_map, cases sels, simp_all) (cases sels, simp_all)
    moreover have "(\<exists>s. Inr ` set sels = {Inr s :: kube_error + string}) \<longleftrightarrow> (\<exists>s. set sels = {s})"
      by (auto simp: image_iff set_eq_iff) 
    ultimately show ?thesis
      using res Inr False nss
      by (simp add: unify_label_selectors_eq label_selector_for_other del: collect_results.simps)
  qed
qed

text \<open>A requirement with its values in the order they are printed.\<close>

definition canonical_requirement :: "label_selector_requirement \<Rightarrow> label_selector_requirement" where
  "canonical_requirement req = req\<lparr>lsr_values := map_option sort (lsr_values req)\<rparr>"

lemma match_expression_fragment_canonical:
  "match_expression_fragment (canonical_requirement req) = match_expression_fragment req"
proof (cases "lsr_values req")
  case (Some vals)
  have "sort vals = [] \<longleftrightarrow> vals = []" by (metis length_0_conv length_sort)
  moreover have "sort (sort vals) = sort vals" by (rule sorted_sort_id) (rule sorted_sort)
  ultimately show ?thesis
    using Some by (simp add: match_expression_fragment_def canonical_requirement_def Let_def)
qed (simp add: match_expression_fragment_def canonical_requirement_def Let_def)

lemma map_filter_fragment_mset:
  assumes "mset (map canonical_requirement xs) = mset (map canonical_requirement ys)"
  shows "mset (List.map_filter match_expression_fragment xs)
    = mset (List.map_filter match_expression_fragment ys)"
proof -
  have c: "List.map_filter match_expression_fragment zs
      = List.map_filter match_expression_fragment (map canonical_requirement zs)" for zs
    by (induction zs) (simp_all add: match_expression_fragment_canonical split: option.split)
  have m: "mset (List.map_filter f zs) = image_mset (the \<circ> f) (filter_mset (\<lambda>z. f z \<noteq> None) (mset zs))"
    for f :: "label_selector_requirement \<Rightarrow> string option" and zs
    by (induction zs) (auto split: option.split)
  show ?thesis unfolding c [of xs] c [of ys] m assms ..
qed

text \<open>
  The selector of a workload does not depend on how its manifest orders things: two label
  selectors with the same \<open>matchLabels\<close> whose \<open>matchExpressions\<close> are the same up to the order
  of the requirements and of the values in each give the same selector string (so namespaces
  that agree are recognised as agreeing).
\<close>

theorem selector_order_irrelevant:
  assumes "mset (map canonical_requirement (unwrap_or [] (ls_match_expressions a)))
      = mset (map canonical_requirement (unwrap_or [] (ls_match_expressions b)))"
    and "unwrap_or [] (ls_match_labels a) = unwrap_or [] (ls_match_labels b)"
  shows "label_selector_from_meta a template kind name = label_selector_from_meta b template kind name"
proof -
  let ?ea = "unwrap_or [] (ls_match_expressions a)" and ?eb = "unwrap_or [] (ls_match_expressions b)"
  have ne: "?ea = [] \<longleftrightarrow> ?eb = []"
    using arg_cong [OF assms(1), of size] by (metis length_0_conv length_map size_mset)
  let ?pa = "\<lambda>t. map label_pair (unwrap_or [] (ls_match_labels b))
      @ List.map_filter match_expression_fragment ?ea @ t"
  let ?pb = "\<lambda>t. map label_pair (unwrap_or [] (ls_match_labels b))
      @ List.map_filter match_expression_fragment ?eb @ t"
  have m: "mset (?pa t) = mset (?pb t)" for t
    using map_filter_fragment_mset [OF assms(1)] by simp
  then have st: "sort (?pa t) = sort (?pb t)" for t
    by (metis properties_for_sort mset_sort sorted_sort)
  from m have em: "?pa t = [] \<longleftrightarrow> ?pb t = []" for t
    by (metis mset_zero_iff)
  show ?thesis
    unfolding label_selector_from_meta_def Let_def assms(2) ne
    by (rule if_cong [OF em refl arg_cong [where f = "join '',''", OF st]])
qed

theorem selector_order_irrelevant_witness:
  "label_selector_from_meta
     \<lparr>ls_match_labels = None, ls_match_expressions = Some
        [\<lparr>lsr_key = ''tier'', lsr_operator = ''In'', lsr_values = Some [''b'', ''a'']\<rparr>,
         \<lparr>lsr_key = ''old'', lsr_operator = ''DoesNotExist'', lsr_values = None\<rparr>]\<rparr> None RDeployment ''api''
   = label_selector_from_meta
     \<lparr>ls_match_labels = Some [], ls_match_expressions = Some
        [\<lparr>lsr_key = ''old'', lsr_operator = ''DoesNotExist'', lsr_values = None\<rparr>,
         \<lparr>lsr_key = ''tier'', lsr_operator = ''In'', lsr_values = Some [''a'', ''b'']\<rparr>]\<rparr> None RDeployment ''api''"
proof -
  have "sort [''b'', ''a''] = [''a'', ''b'']" "sort [''a'', ''b''] = [''a'', ''b'']" by code_simp+
  then show ?thesis by (intro selector_order_irrelevant) (simp_all add: canonical_requirement_def)
qed

section \<open>The watch plan (\<open>discovery/pod_list.rs\<close>)\<close>

datatype pod_list_error = PLQuery query_parse_error | PLRegex string | PLKube kube_error

fun pod_list_error_display :: "pod_list_error \<Rightarrow> string" where
  "pod_list_error_display (PLQuery e) = query_parse_error_display e"
| "pod_list_error_display (PLRegex e) = e"
| "pod_list_error_display (PLKube e) = kube_error_display e"

record pod_watch_plan_config =
  wpc_query :: string
  wpc_selector :: "string option"
  wpc_field_selector :: "string option"
  wpc_node :: "string option"
  wpc_namespaces :: "string list"
  wpc_all_namespaces :: bool

record list_params =
  lpm_label_selector :: "string option"
  lpm_field_selector :: "string option"
  lpm_limit :: "u32 option"
  lpm_continue :: "string option"

record watch_config =
  wc_label_selector :: "string option"
  wc_field_selector :: "string option"

record pod_watch_plan =
  pwp_list_params :: list_params
  pwp_watch_cfg :: watch_config
  pwp_pod_regex :: "regex option"

definition combined_field_selector :: "pod_watch_plan_config \<Rightarrow> string option" where
  "combined_field_selector cfg =
     (let parts =
        (case wpc_field_selector cfg of None \<Rightarrow> []
         | Some fs \<Rightarrow> (let t = trim fs in if t = [] then [] else [t]))
        @ (case wpc_node cfg of None \<Rightarrow> []
           | Some n \<Rightarrow> (let t = trim n in if t = [] then [] else [''spec.nodeName='' @ t]))
      in if parts = [] then None else Some (join '','' parts))"

definition merged_field_selector_for_pod_name :: "string \<Rightarrow> pod_watch_plan_config \<Rightarrow> string" where
  "merged_field_selector_for_pod_name pod_name cfg =
     join '','' ((''metadata.name='' @ trim pod_name)
       # (case combined_field_selector cfg of None \<Rightarrow> [] | Some rest \<Rightarrow> [rest]))"

definition list_params_default :: list_params where
  "list_params_default =
     \<lparr>lpm_label_selector = None, lpm_field_selector = None, lpm_limit = None, lpm_continue = None\<rparr>"

text \<open>The label and field selectors \<open>build\<close> puts on the list before the user's field selectors.\<close>

definition plan_selectors ::
  "workload_api \<Rightarrow> pod_watch_plan_config \<Rightarrow> (resource_kind \<times> string) option \<Rightarrow>
     pod_list_error + list_params" where
  "plan_selectors api cfg kind_name =
     (case wpc_selector cfg of
        Some sel \<Rightarrow> Inr (list_params_default\<lparr>lpm_label_selector := Some sel\<rparr>)
      | None \<Rightarrow>
          (case kind_name of
             None \<Rightarrow> Inr list_params_default
           | Some (kind, name) \<Rightarrow>
               if kind = RPod
               then Inr (list_params_default
                      \<lparr>lpm_field_selector := Some (merged_field_selector_for_pod_name name cfg)\<rparr>)
               else bind_result (map_err PLKube (resolve_label_selector_for_namespaces api kind name
                        (wpc_namespaces cfg) (wpc_all_namespaces cfg)))
                      (\<lambda>resolved. Inr (list_params_default\<lparr>lpm_label_selector := Some resolved\<rparr>))))"

definition plan_for_query ::
  "regex_lib \<Rightarrow> workload_api \<Rightarrow> pod_watch_plan_config \<Rightarrow> query \<Rightarrow> pod_list_error + pod_watch_plan" where
  "plan_for_query regex_new api cfg q =
     bind_result (case q of
         PodNameRegex re \<Rightarrow> bind_result (map_err PLRegex (regex_new re)) (\<lambda>r. Inr (Some r))
       | LabelSelectorQ _ _ \<Rightarrow> Inr None) (\<lambda>pod_regex.
     let kind_name = (case q of LabelSelectorQ kind name \<Rightarrow> Some (kind, name) | PodNameRegex _ \<Rightarrow> None);
         pod_kind_field_query = (wpc_selector cfg = None
           \<and> (case kind_name of Some (kind, _) \<Rightarrow> kind = RPod | None \<Rightarrow> False))
     in bind_result (plan_selectors api cfg kind_name) (\<lambda>list.
       let list = (if \<not> pod_kind_field_query then
              (case combined_field_selector cfg of None \<Rightarrow> list
               | Some fs \<Rightarrow> list\<lparr>lpm_field_selector := Some fs\<rparr>) else list);
           list = list\<lparr>lpm_limit := Some 500\<rparr>
       in Inr \<lparr>pwp_list_params = list,
               pwp_watch_cfg = \<lparr>wc_label_selector = lpm_label_selector list,
                                wc_field_selector = lpm_field_selector list\<rparr>,
               pwp_pod_regex = pod_regex\<rparr>))"

definition pod_watch_plan_build ::
  "regex_lib \<Rightarrow> workload_api \<Rightarrow> pod_watch_plan_config \<Rightarrow> pod_list_error + pod_watch_plan" where
  "pod_watch_plan_build regex_new api cfg =
     (let query_src = (if wpc_selector cfg \<noteq> None \<and> wpc_query cfg = ''.'' then ''.*'' else wpc_query cfg)
      in bind_result (map_err PLQuery (parse_query regex_new query_src))
           (plan_for_query regex_new api cfg))"

text \<open>The non-empty trimmed parts of the user's field selection, and of a pod named by the query.\<close>

definition nonblank :: "string \<Rightarrow> string option \<Rightarrow> string list" where
  "nonblank pre x =
     (case x of None \<Rightarrow> [] | Some s \<Rightarrow> if trim s = [] then [] else [pre @ trim s])"

definition query_pod_parts :: "pod_watch_plan_config \<Rightarrow> string list" where
  "query_pod_parts cfg =
     (case split_once (CHR ''/'') (wpc_query cfg) of
        Some (kind_s, name) \<Rightarrow>
          if wpc_selector cfg = None \<and> resource_kind_of kind_s = Some RPod
          then [''metadata.name='' @ trim name] else []
      | None \<Rightarrow> [])"

definition all_field_parts :: "pod_watch_plan_config \<Rightarrow> string list" where
  "all_field_parts cfg =
     query_pod_parts cfg @ nonblank [] (wpc_field_selector cfg) @ nonblank ''spec.nodeName='' (wpc_node cfg)"

lemma combined_field_selector_parts:
  "combined_field_selector cfg =
     (let parts = nonblank [] (wpc_field_selector cfg) @ nonblank ''spec.nodeName='' (wpc_node cfg)
      in if parts = [] then None else Some (join '','' parts))"
  by (simp add: combined_field_selector_def nonblank_def Let_def split: option.split)

lemma parse_query_cases:
  "parse_query regex_new arg = Inr q \<longleftrightarrow>
     (case split_once (CHR ''/'') arg of
        Some (kind_s, name) \<Rightarrow> \<exists>kind. resource_kind_of kind_s = Some kind \<and> q = LabelSelectorQ kind name
      | None \<Rightarrow> q = PodNameRegex arg \<and> length arg \<le> 1024 \<and> (\<exists>r. regex_new arg = Inr r))"
  by (auto simp: parse_query_def bind_result_Inr_iff compile_user_regex_ok_iff
      simp del: split_once_None split: option.splits prod.splits)

lemma merged_field_selector_parts:
  "merged_field_selector_for_pod_name name cfg =
     join '','' ((''metadata.name='' @ trim name)
       # nonblank [] (wpc_field_selector cfg) @ nonblank ''spec.nodeName='' (wpc_node cfg))"
proof -
  let ?ys = "nonblank [] (wpc_field_selector cfg) @ nonblank ''spec.nodeName='' (wpc_node cfg)"
  have "join '','' (h # (case if ?ys = [] then None else Some (join '','' ?ys) of None \<Rightarrow> [] | Some r \<Rightarrow> [r]))
      = join '','' (h # ?ys)" for h
    by (cases "?ys = []") (simp_all add: join_cons)
  then show ?thesis
    by (simp only: merged_field_selector_for_pod_name_def combined_field_selector_parts Let_def)
qed

text \<open>
  The label selector the user asks for: \<open>-l\<close> as given, or the selector of the workload a
  \<open>kind/name\<close> query names.  The workload is looked up in the one namespace of the run; in several
  namespaces the common selector counts if all lookups agree, and \<open>app=<name>\<close> stands in where
  they do not or no single namespace is known.
\<close>

definition workload_labels ::
  "workload_api \<Rightarrow> resource_kind \<Rightarrow> string \<Rightarrow> string list \<Rightarrow> bool \<Rightarrow> kube_error + string" where
  "workload_labels api kind name namespaces all_namespaces =
     (let lookup = (\<lambda>ns. resolve_label_selector_for_kind_query api kind name (Some ns))
      in if all_namespaces \<or> namespaces = [] then Inr (''app='' @ name)
         else if length namespaces = 1 \<or> (\<exists>s. lookup ` set namespaces = {Inr s}) then lookup (hd namespaces)
         else Inr (''app='' @ name))"

definition regex_source :: "pod_watch_plan_config \<Rightarrow> string" where
  "regex_source cfg = (if wpc_selector cfg \<noteq> None \<and> wpc_query cfg = ''.'' then ''.*'' else wpc_query cfg)"

definition wanted_labels :: "workload_api \<Rightarrow> pod_watch_plan_config \<Rightarrow> kube_error + string option" where
  "wanted_labels api cfg =
     (case (wpc_selector cfg, split_once (CHR ''/'') (wpc_query cfg)) of
        (Some sel, _) \<Rightarrow> Inr (Some sel)
      | (None, None) \<Rightarrow> Inr None
      | (None, Some (kind_s, name)) \<Rightarrow>
          (case resource_kind_of kind_s of
             None \<Rightarrow> Inr None
           | Some kind \<Rightarrow>
               if kind = RPod then Inr None
               else bind_result (workload_labels api kind name (wpc_namespaces cfg) (wpc_all_namespaces cfg))
                      (\<lambda>s. Inr (Some s))))"

lemma workload_labels_resolve:
  "kind \<noteq> RPod \<Longrightarrow>
     resolve_label_selector_for_namespaces api kind name nss all_ns = workload_labels api kind name nss all_ns"
  by (simp add: resolve_namespaces_spec workload_labels_def Let_def label_selector_for_def split: resource_kind.split)

text \<open>
  C28: the watch plan asks for exactly what the user selected: listing and watching use the
  same selectors, in pages of 500 from the first page on; the label selector is the \<open>-l\<close> selector
  as given, or else that of the workload named by a \<open>kind/name\<close> query, and absent for any other
  query; the field selector joins the pod named by a \<open>pod/<name>\<close> query (when there is no \<open>-l\<close>), the
  user's field selector and the node, and is absent when there is none of them; pods are
  filtered by name exactly when the query is not \<open>kind/name\<close>, by the query as a regular expression
  (a lone \<open>.\<close> next to \<open>-l\<close> means all pods).  Building fails only on a query that does not
  parse, with the parser's error, or on the lookup of the workload, with the API server's error,
  never in the second regex compilation.
\<close>

theorem watch_plan_exact:
  "case pod_watch_plan_build regex_new api cfg of
     Inl err \<Rightarrow> (\<exists>e. err = PLQuery e \<and> parse_query regex_new (regex_source cfg) = Inl e)
       \<or> (\<exists>e. err = PLKube e \<and> wanted_labels api cfg = Inl e)
   | Inr plan \<Rightarrow>
       wc_label_selector (pwp_watch_cfg plan) = lpm_label_selector (pwp_list_params plan)
       \<and> wc_field_selector (pwp_watch_cfg plan) = lpm_field_selector (pwp_list_params plan)
       \<and> lpm_limit (pwp_list_params plan) = Some 500 \<and> lpm_continue (pwp_list_params plan) = None
       \<and> wanted_labels api cfg = Inr (lpm_label_selector (pwp_list_params plan))
       \<and> lpm_field_selector (pwp_list_params plan) =
           (if all_field_parts cfg = [] then None else Some (join '','' (all_field_parts cfg)))
       \<and> (if CHR ''/'' \<in> set (wpc_query cfg) then pwp_pod_regex plan = None
          else length (regex_source cfg) \<le> 1024 \<and> (\<exists>r. regex_new (regex_source cfg) = Inr r \<and> pwp_pod_regex plan = Some r))"
proof -
  let ?src = "regex_source cfg"
  note src_def = regex_source_def [of cfg]
  have build: "pod_watch_plan_build regex_new api cfg =
      bind_result (map_err PLQuery (parse_query regex_new ?src)) (plan_for_query regex_new api cfg)"
    by (simp add: pod_watch_plan_build_def src_def Let_def)
  show ?thesis
  proof (cases "split_once (CHR ''/'') (wpc_query cfg)")
    case None
    then have so: "split_once (CHR ''/'') ?src = None" by (auto simp: src_def)
    have wl: "wanted_labels api cfg = Inr (wpc_selector cfg)"
      unfolding wanted_labels_def None by (simp split: option.split)
    have qp: "query_pod_parts cfg = []" using None by (simp add: query_pod_parts_def del: split_once_None)
    show ?thesis
    proof (cases "parse_query regex_new ?src")
      case (Inl e)
      then show ?thesis by (simp add: build)
    next
      case (Inr q)
      with so obtain r where q: "q = PodNameRegex ?src" and r: "length ?src \<le> 1024" "regex_new ?src = Inr r"
        by (auto simp: parse_query_cases simp del: split_once_None)
      show ?thesis using Inr q r None
        by (simp add: build plan_for_query_def Let_def plan_selectors_def
            combined_field_selector_parts all_field_parts_def qp list_params_default_def wl
            split: option.split)
    qed
  next
    case (Some kn)
    obtain kind_s name where kn: "kn = (kind_s, name)" by (cases kn)
    have sl: "CHR ''/'' \<in> set (wpc_query cfg)" using Some split_once_None [of "CHR ''/''" "wpc_query cfg"] by (metis option.distinct(1))
    then have "?src = wpc_query cfg" by (auto simp: src_def)
    with Some kn have so: "split_once (CHR ''/'') ?src = Some (kind_s, name)" by simp
    show ?thesis
    proof (cases "resource_kind_of kind_s")
      case None
      with so show ?thesis
        by (simp add: build parse_query_def)
    next
      case (Some kind)
      have kn_parts: "split_once (CHR ''/'') (wpc_query cfg) = Some (kind_s, name)" "resource_kind_of kind_s = Some kind"
        using \<open>split_once _ _ = Some kn\<close> kn Some by simp_all
      have pq: "parse_query regex_new ?src = Inr (LabelSelectorQ kind name)"
        using so Some by (simp add: parse_query_def)
      let ?res = "workload_labels api kind name (wpc_namespaces cfg) (wpc_all_namespaces cfg)"
      note wl = workload_labels_resolve [of kind api name "wpc_namespaces cfg" "wpc_all_namespaces cfg"]
      have qp: "query_pod_parts cfg =
          (if wpc_selector cfg = None \<and> kind = RPod then [''metadata.name='' @ trim name] else [])"
        using \<open>split_once _ _ = Some kn\<close> kn Some by (simp add: query_pod_parts_def)
      show ?thesis
        using pq sl
        by (cases "wpc_selector cfg"; cases "kind = RPod"; cases ?res)
          (simp_all add: build plan_for_query_def Let_def plan_selectors_def
            combined_field_selector_parts all_field_parts_def qp list_params_default_def
            merged_field_selector_parts wanted_labels_def wl kn_parts)
    qed
  qed
qed

end
