(* ===== verification/Run_Resolution.thy ===== *)
theory Run_Resolution
  imports Resource
begin

text \<open>
  What a run watches: kubeconfig and context selection (\<open>discovery/context.rs\<close>), exec
  credential plugins (\<open>discovery/exec_resolver.rs\<close>), query and namespace resolution
  (\<open>discovery/run_resolution.rs\<close>) and the paginated list of pods (\<open>runtime/list_pods.rs\<close>).
  The process environment, the file reader, the plugin process and \<open>serde_json\<close> are
  parameters.
\<close>

section \<open>Kubeconfig\<close>

record exec_cluster =
  cl_server :: "string option"
  cl_certificate_authority_data :: "string option"
  cl_insecure_skip_tls_verify :: "bool option"

datatype exec_interactive_mode = EimNever | EimIfAvailable | EimAlways

record exec_config =
  ex_api_version :: "string option"
  ex_command :: "string option"
  ex_args :: "string list option"
  ex_env :: "(string \<rightharpoonup> string) list option"
  ex_drop_env :: "string list option"
  ex_interactive_mode :: "exec_interactive_mode option"
  ex_provide_cluster_info :: bool

record auth_info =
  ai_token :: "string option"
  ai_exec :: "exec_config option"

record kube_context =
  kctx_cluster :: string
  kctx_user :: "string option"
  kctx_namespace :: "string option"

record named_context =
  nctx_name :: string
  nctx_context :: "kube_context option"

record named_cluster =
  ncl_name :: string
  ncl_cluster :: "exec_cluster option"

record named_auth_info =
  nai_name :: string
  nai_auth_info :: "auth_info option"

record kubeconfig =
  kc_current_context :: "string option"
  kc_contexts :: "named_context list"
  kc_clusters :: "named_cluster list"
  kc_auth_infos :: "named_auth_info list"

record context_selector =
  csel_kubeconfig_path :: "string option"
  csel_context_name :: "string option"

datatype context_error =
  CxParse string | CxContextNotFound string | CxIo string | CxClient string

fun context_error_display :: "context_error \<Rightarrow> string" where
  "context_error_display (CxParse e) = ''kubeconfig parse error: '' @ e"
| "context_error_display (CxContextNotFound c) = ''context '' @ [CHR 0x27] @ c @ [CHR 0x27] @ '' not found in kubeconfig''"
| "context_error_display (CxIo e) = ''io error: '' @ e"
| "context_error_display (CxClient e) = ''failed to build kubernetes client: '' @ e"

text \<open>The process around the tool: the two environment variables and the kubeconfig reader.\<close>

record process_env =
  pe_kubeconfig_var :: "string option"
  pe_home_var :: "string option"
  pe_read :: "string \<Rightarrow> string + kubeconfig"

text \<open>\<open>PathBuf::join\<close> with a relative path.\<close>

definition path_join :: "string \<Rightarrow> string \<Rightarrow> string" where
  "path_join base rel =
     (if base = [] \<or> last base = CHR ''/'' then base @ rel else base @ ''/'' @ rel)"

definition kubeconfig_path :: "process_env \<Rightarrow> context_selector \<Rightarrow> context_error + string" where
  "kubeconfig_path env selector =
     (case csel_kubeconfig_path selector of
        Some p \<Rightarrow> Inr p
      | None \<Rightarrow>
          (case pe_kubeconfig_var env of
             Some v \<Rightarrow>
               (let first = hd (split_on (CHR '':'') v) in
                if first = [] then Inl (CxParse ''empty KUBECONFIG'') else Inr first)
           | None \<Rightarrow> Inr (path_join (unwrap_or [] (pe_home_var env)) ''.kube/config'')))"

definition resolve_kubeconfig :: "process_env \<Rightarrow> context_selector \<Rightarrow> context_error + kubeconfig" where
  "resolve_kubeconfig env selector =
     bind_result (kubeconfig_path env selector) (\<lambda>path. map_err CxParse (pe_read env path))"

definition pick_context_name :: "kubeconfig \<Rightarrow> context_selector \<Rightarrow> context_error + string" where
  "pick_context_name cfg selector =
     (case (case csel_context_name selector of Some n \<Rightarrow> Some n | None \<Rightarrow> kc_current_context cfg) of
        None \<Rightarrow> Inl (CxContextNotFound ''(none)'')
      | Some want \<Rightarrow>
          if list_ex (\<lambda>c. nctx_name c = want) (kc_contexts cfg) then Inr want
          else Inl (CxContextNotFound want))"

definition find_context :: "kubeconfig \<Rightarrow> string \<Rightarrow> named_context option" where
  "find_context cfg ctx_name = find (\<lambda>c. nctx_name c = ctx_name) (kc_contexts cfg)"

definition default_namespace :: "kubeconfig \<Rightarrow> context_selector \<Rightarrow> context_error + string" where
  "default_namespace cfg selector =
     bind_result (pick_context_name cfg selector) (\<lambda>ctx_name.
       case find_context cfg ctx_name of
         None \<Rightarrow> Inl (CxContextNotFound ctx_name)
       | Some named \<Rightarrow>
           Inr (case Option.bind (nctx_context named) kctx_namespace of
                  None \<Rightarrow> ''default''
                | Some ns \<Rightarrow> if trim ns = [] then ''default'' else ns))"

definition context_user :: "kubeconfig \<Rightarrow> string \<Rightarrow> string option" where
  "context_user cfg ctx_name = Option.bind (Option.bind (find_context cfg ctx_name) nctx_context) kctx_user"

definition cluster_for_context :: "kubeconfig \<Rightarrow> string \<Rightarrow> exec_cluster option" where
  "cluster_for_context cfg ctx_name =
     Option.bind (find_context cfg ctx_name) (\<lambda>named.
     Option.bind (nctx_context named) (\<lambda>ctx.
     Option.bind (find (\<lambda>c. ncl_name c = kctx_cluster ctx) (kc_clusters cfg)) ncl_cluster))"

section \<open>Exec credential plugins (\<open>discovery/exec_resolver.rs\<close>)\<close>

record exec_credential_status =
  ecs_token :: "string option"
  ecs_expiration_timestamp :: "string option"

text \<open>
  The command handed to the operating system: program, arguments, environment, whether stdin
  and stderr are inherited.
\<close>

record command =
  cm_program :: string
  cm_args :: "string list"
  cm_env :: "string \<rightharpoonup> string"
  cm_inherit_stdio :: bool

record exec_host =
  eh_environment :: "string \<rightharpoonup> string"
  eh_output :: "command \<Rightarrow> string + bool \<times> string"
  eh_parse_status :: "string \<Rightarrow> (string + exec_credential_status option)"
  eh_json_to_string :: "json \<Rightarrow> string + string"

definition apply_exec_env :: "(string \<rightharpoonup> string) list option \<Rightarrow> (string \<rightharpoonup> string) \<Rightarrow> (string \<rightharpoonup> string)" where
  "apply_exec_env entries env =
     fold (\<lambda>entry e. case (entry ''name'', entry ''value'') of
             (Some name, Some val) \<Rightarrow> e(name \<mapsto> val) | _ \<Rightarrow> e) (unwrap_or [] entries) env"

definition apply_drop_env :: "string list option \<Rightarrow> (string \<rightharpoonup> string) \<Rightarrow> (string \<rightharpoonup> string)" where
  "apply_drop_env names env = fold (\<lambda>n e. e(n := None)) (unwrap_or [] names) env"

text \<open>
  The document of \<open>KUBERNETES_EXEC_INFO\<close>: optional members are left out, and every member is
  named in camel case.
\<close>

definition json_opt :: "string \<Rightarrow> json option \<Rightarrow> (string \<times> json) list" where
  "json_opt key v = (case v of None \<Rightarrow> [] | Some j \<Rightarrow> [(key, j)])"

definition exec_cluster_json :: "exec_cluster \<Rightarrow> json" where
  "exec_cluster_json c = JObject
     ([(''server'', (case cl_server c of None \<Rightarrow> JNull | Some s \<Rightarrow> JString s))]
      @ json_opt ''certificateAuthorityData'' (map_option JString (cl_certificate_authority_data c))
      @ json_opt ''insecureSkipTlsVerify'' (map_option JBool (cl_insecure_skip_tls_verify c)))"

definition exec_interactive :: "exec_config \<Rightarrow> bool" where
  "exec_interactive exec \<longleftrightarrow> ex_interactive_mode exec \<noteq> Some EimNever"

definition exec_info :: "exec_config \<Rightarrow> exec_cluster option \<Rightarrow> json" where
  "exec_info exec cluster = JObject
     [(''apiVersion'', JString (unwrap_or ''client.authentication.k8s.io/v1'' (ex_api_version exec))),
      (''kind'', JString ''ExecCredential''),
      (''spec'', JObject
         (json_opt ''cluster'' (map_option exec_cluster_json cluster)
          @ [(''interactive'', JBool (exec_interactive exec))]))]"

definition exec_info_json :: "exec_host \<Rightarrow> exec_config \<Rightarrow> exec_cluster option \<Rightarrow> string option" where
  "exec_info_json host exec cluster =
     (if ex_provide_cluster_info exec \<and> cluster = None then None
      else case eh_json_to_string host (exec_info exec cluster) of Inr s \<Rightarrow> Some s | Inl _ \<Rightarrow> None)"

text \<open>What is accepted of the plugin: success, a status, and in it a token that is not empty.\<close>

definition accept_output :: "exec_host \<Rightarrow> string + bool \<times> string \<Rightarrow> exec_credential_status option" where
  "accept_output host output =
     (case output of
        Inl _ \<Rightarrow> None
      | Inr (success, stdout) \<Rightarrow>
          if \<not> success then None
          else (case eh_parse_status host stdout of
              Inl _ \<Rightarrow> None
            | Inr None \<Rightarrow> None
            | Inr (Some status) \<Rightarrow>
                if unwrap_or [] (ecs_token status) = [] then None else Some status))"

definition run_exec_plugin ::
  "exec_host \<Rightarrow> exec_config \<Rightarrow> exec_cluster option \<Rightarrow> exec_credential_status option" where
  "run_exec_plugin host exec cluster =
     Option.bind (ex_command exec) (\<lambda>program.
     let env = apply_exec_env (ex_env exec) (eh_environment host) in
     Option.bind (exec_info_json host exec cluster) (\<lambda>info.
     let env = apply_drop_env (ex_drop_env exec) (env(''KUBERNETES_EXEC_INFO'' \<mapsto> info)) in
     accept_output host (eh_output host
       \<lparr>cm_program = program, cm_args = unwrap_or [] (ex_args exec), cm_env = env,
        cm_inherit_stdio = exec_interactive exec\<rparr>)))"

definition resolve_exec_token :: "exec_host \<Rightarrow> exec_config \<Rightarrow> exec_cluster option \<Rightarrow> string option" where
  "resolve_exec_token host exec cluster = Option.bind (run_exec_plugin host exec cluster) ecs_token"

text \<open>The first entry of the user is updated in place.\<close>

fun update_first :: "('a \<Rightarrow> bool) \<Rightarrow> ('a \<Rightarrow> 'a) \<Rightarrow> 'a list \<Rightarrow> 'a list" where
  "update_first P f [] = []"
| "update_first P f (x # xs) = (if P x then f x # xs else x # update_first P f xs)"

definition set_token :: "string \<Rightarrow> named_auth_info \<Rightarrow> named_auth_info" where
  "set_token token u =
     u\<lparr>nai_auth_info := map_option (\<lambda>a. a\<lparr>ai_token := Some token, ai_exec := None\<rparr>) (nai_auth_info u)\<rparr>"

definition apply_exec_token_to_kubeconfig :: "exec_host \<Rightarrow> kubeconfig \<Rightarrow> string \<Rightarrow> kubeconfig" where
  "apply_exec_token_to_kubeconfig host cfg ctx_name =
     (let cluster = cluster_for_context cfg ctx_name in
      case Option.bind cluster cl_server of
        None \<Rightarrow> cfg
      | Some server \<Rightarrow>
      (case context_user cfg ctx_name of
        None \<Rightarrow> cfg
      | Some user_name \<Rightarrow>
      (case Option.bind (Option.bind (find (\<lambda>u. nai_name u = user_name) (kc_auth_infos cfg)) nai_auth_info) ai_exec of
        None \<Rightarrow> cfg
      | Some exec \<Rightarrow>
      (case resolve_exec_token host exec cluster of
        None \<Rightarrow> cfg
      | Some token \<Rightarrow>
          cfg\<lparr>kc_auth_infos :=
            update_first (\<lambda>u. nai_name u = user_name) (set_token token) (kc_auth_infos cfg)\<rparr>))))"

section \<open>Building the client\<close>

record ('cfg, 'client) client_lib =
  cl_from_kubeconfig :: "kubeconfig \<Rightarrow> string \<Rightarrow> string + 'cfg"
  cl_set_connect_timeout_secs :: "nat \<Rightarrow> 'cfg \<Rightarrow> 'cfg"
  cl_try_from :: "'cfg \<Rightarrow> string + 'client"

text \<open>\<open>joined\<close> is the error of the blocking task, if it panicked.\<close>

definition build_client ::
  "process_env \<Rightarrow> exec_host \<Rightarrow> ('cfg, 'client) client_lib \<Rightarrow> string option \<Rightarrow> context_selector \<Rightarrow>
     context_error + 'client \<times> context_name" where
  "build_client env host lib joined selector =
     bind_result (resolve_kubeconfig env selector) (\<lambda>cfg.
     bind_result (pick_context_name cfg selector) (\<lambda>ctx_name.
     bind_result (case joined of
         Some e \<Rightarrow> Inl (CxClient (''exec resolver task failed: '' @ e))
       | None \<Rightarrow> Inr (apply_exec_token_to_kubeconfig host cfg ctx_name)) (\<lambda>cfg'.
     bind_result (map_err CxParse (cl_from_kubeconfig lib cfg' ctx_name)) (\<lambda>config.
     bind_result (map_err CxClient (cl_try_from lib (cl_set_connect_timeout_secs lib 30 config)))
       (\<lambda>client. Inr (client, ctx_name))))))"

lemma find_update_first_same:
  assumes "\<And>x. P (f x) = P x"
  shows "find P (update_first P f xs) = map_option f (find P xs)"
  using assms by (induction xs) auto

lemma find_update_first_disjoint:
  assumes "\<And>x. Q x \<Longrightarrow> \<not> P x" and "\<And>x. P x \<Longrightarrow> \<not> Q (f x)"
  shows "find Q (update_first P f xs) = find Q xs"
  using assms by (induction xs) auto

lemma find_context_update [simp]:
  "find_context (cfg\<lparr>kc_auth_infos := x\<rparr>) n = find_context cfg n"
  "cluster_for_context (cfg\<lparr>kc_auth_infos := x\<rparr>) n = cluster_for_context cfg n"
  "context_user (cfg\<lparr>kc_auth_infos := x\<rparr>) n = context_user cfg n"
  by (simp_all add: find_context_def cluster_for_context_def context_user_def)

lemma accept_output_token: "accept_output host out = Some st \<Longrightarrow> ecs_token st \<noteq> Some []"
  by (auto simp: accept_output_def split: sum.splits prod.splits option.splits if_splits)

lemma resolve_exec_token_nonempty: "resolve_exec_token host exec cluster = Some t \<Longrightarrow> t \<noteq> []"
  by (auto simp: resolve_exec_token_def run_exec_plugin_def Let_def bind_eq_Some_conv dest: accept_output_token)

lemma set_token_name [simp]: "nai_name (set_token t u) = nai_name u"
  by (simp add: set_token_def)

text \<open>The credentials a context is used with.\<close>

definition context_auth :: "kubeconfig \<Rightarrow> string \<Rightarrow> auth_info option" where
  "context_auth cfg ctx_name =
     Option.bind (context_user cfg ctx_name) (\<lambda>user.
     Option.bind (find (\<lambda>u. nai_name u = user) (kc_auth_infos cfg)) nai_auth_info)"

text \<open>
  Resolving the exec plugin touches nothing but the credentials of the selected context:
  contexts, clusters and the credentials of all other users are unchanged, and the selected
  context's own credentials either stay as they are (so kube's exec fallback still applies)
  or lose the exec plugin in exchange for a token that is not empty and is the one the plugin
  returned.
\<close>

theorem exec_token_frame:
  "let cfg' = apply_exec_token_to_kubeconfig host cfg ctx_name in
     kc_contexts cfg' = kc_contexts cfg \<and> kc_clusters cfg' = kc_clusters cfg
     \<and> kc_current_context cfg' = kc_current_context cfg
     \<and> (\<forall>user. context_user cfg ctx_name = Some user
          \<or> find (\<lambda>u. nai_name u = user) (kc_auth_infos cfg') = find (\<lambda>u. nai_name u = user) (kc_auth_infos cfg))
     \<and> (context_auth cfg' ctx_name = context_auth cfg ctx_name
        \<or> (\<exists>auth exec token. context_auth cfg ctx_name = Some auth \<and> ai_exec auth = Some exec
             \<and> resolve_exec_token host exec (cluster_for_context cfg ctx_name) = Some token \<and> token \<noteq> []
             \<and> context_auth cfg' ctx_name = Some (auth\<lparr>ai_token := Some token, ai_exec := None\<rparr>)))"
proof (cases "apply_exec_token_to_kubeconfig host cfg ctx_name = cfg")
  case True
  then show ?thesis by (simp add: Let_def)
next
  case False
  then obtain user exec token where
    u: "context_user cfg ctx_name = Some user"
    and x: "Option.bind (Option.bind (find (\<lambda>u. nai_name u = user) (kc_auth_infos cfg)) nai_auth_info) ai_exec = Some exec"
    and t: "resolve_exec_token host exec (cluster_for_context cfg ctx_name) = Some token"
    and c: "apply_exec_token_to_kubeconfig host cfg ctx_name = cfg\<lparr>kc_auth_infos :=
        update_first (\<lambda>u. nai_name u = user) (set_token token) (kc_auth_infos cfg)\<rparr>"
    by (auto simp: apply_exec_token_to_kubeconfig_def Let_def split: option.splits)
  have same: "find (\<lambda>u. nai_name u = user) (update_first (\<lambda>u. nai_name u = user) (set_token token) (kc_auth_infos cfg))
      = map_option (set_token token) (find (\<lambda>u. nai_name u = user) (kc_auth_infos cfg))"
    by (rule find_update_first_same) simp
  have other: "find (\<lambda>u. nai_name u = v) (update_first (\<lambda>u. nai_name u = user) (set_token token) (kc_auth_infos cfg))
      = find (\<lambda>u. nai_name u = v) (kc_auth_infos cfg)" if "v \<noteq> user" for v
    using that by (intro find_update_first_disjoint) auto
  from x obtain na auth where na: "find (\<lambda>u. nai_name u = user) (kc_auth_infos cfg) = Some na"
    "nai_auth_info na = Some auth" "ai_exec auth = Some exec"
    by (auto simp: bind_eq_Some_conv)
  have "context_auth (cfg\<lparr>kc_auth_infos :=
        update_first (\<lambda>u. nai_name u = user) (set_token token) (kc_auth_infos cfg)\<rparr>) ctx_name
      = Some (auth\<lparr>ai_token := Some token, ai_exec := None\<rparr>)"
    by (simp add: context_auth_def u same na) (simp add: set_token_def na)
  moreover have "context_auth cfg ctx_name = Some auth" by (simp add: context_auth_def u na)
  moreover have "context_user cfg ctx_name = Some v
      \<or> find (\<lambda>u. nai_name u = v) (update_first (\<lambda>u. nai_name u = user) (set_token token) (kc_auth_infos cfg))
        = find (\<lambda>u. nai_name u = v) (kc_auth_infos cfg)" for v
    using u other [of v] by (cases "v = user") simp_all
  ultimately show ?thesis
    using t na(3) resolve_exec_token_nonempty [OF t] by (simp add: Let_def c)
qed

section \<open>Query and namespaces of a run (\<open>discovery/run_resolution.rs\<close>)\<close>

record run_resolution_input =
  rri_query :: "string option"
  rri_selector :: "string option"
  rri_field_selector :: "string option"
  rri_node :: "string option"
  rri_all_namespaces :: bool
  rri_namespace_flags :: "string list"

record run_resolution_output =
  rro_query :: string
  rro_namespaces :: "string list"
  rro_all_namespaces :: bool
  rro_implicit_query :: bool

datatype run_resolution_error = QueryRequired | InvalidNamespaceFlags | RRContext context_error

definition implicit_query_from_selector :: "run_resolution_input \<Rightarrow> bool" where
  "implicit_query_from_selector inp \<longleftrightarrow>
     rri_query inp = None \<and> (rri_selector inp \<noteq> None \<or> rri_field_selector inp \<noteq> None)"

definition resolve_pod_query :: "run_resolution_input \<Rightarrow> run_resolution_error + string" where
  "resolve_pod_query inp =
     (case rri_query inp of
        Some q \<Rightarrow>
          if q = ''.'' \<and> rri_selector inp = None \<and> rri_field_selector inp \<noteq> None then Inr ''.*''
          else Inr q
      | None \<Rightarrow>
          if rri_selector inp \<noteq> None \<or> rri_field_selector inp \<noteq> None then Inr ''.*''
          else Inl QueryRequired)"

definition push_namespace :: "string \<Rightarrow> string list \<Rightarrow> string list" where
  "push_namespace seg out =
     (let t = trim seg in if t = [] then out else if t \<in> set out then out else out @ [t])"

definition deduped_explicit_namespaces :: "string list \<Rightarrow> string list" where
  "deduped_explicit_namespaces flags =
     fold (\<lambda>part out. fold push_namespace (split_on (CHR '','') part) out) flags []"

definition resolve_namespaces ::
  "process_env \<Rightarrow> run_resolution_input \<Rightarrow> context_selector \<Rightarrow> run_resolution_error + string list" where
  "resolve_namespaces env inp context =
     (if rri_all_namespaces inp then Inr []
      else
        (let explicit = deduped_explicit_namespaces (rri_namespace_flags inp) in
         if explicit \<noteq> [] then Inr explicit
         else if rri_namespace_flags inp \<noteq> [] then Inl InvalidNamespaceFlags
         else
           bind_result (map_err RRContext (resolve_kubeconfig env context)) (\<lambda>kubeconfig.
           bind_result (map_err RRContext (default_namespace kubeconfig context)) (\<lambda>ns. Inr [ns]))))"

definition resolve_run_input ::
  "process_env \<Rightarrow> run_resolution_input \<Rightarrow> context_selector \<Rightarrow> run_resolution_error + run_resolution_output" where
  "resolve_run_input env inp context =
     bind_result (resolve_pod_query inp) (\<lambda>query.
     bind_result (resolve_namespaces env inp context) (\<lambda>namespaces.
       Inr \<lparr>rro_query = query, rro_namespaces = namespaces,
            rro_all_namespaces = rri_all_namespaces inp,
            rro_implicit_query = implicit_query_from_selector inp\<rparr>))"

text \<open>All segments of the flags, trimmed, without the blank ones.\<close>

definition namespace_segments :: "string list \<Rightarrow> string list" where
  "namespace_segments flags =
     filter (\<lambda>t. t \<noteq> []) (map trim (concat (map (split_on (CHR '','')) flags)))"

lemma deduped_explicit_namespaces_fold:
  "deduped_explicit_namespaces flags =
     fold (\<lambda>t out. if t \<in> set out then out else out @ [t]) (namespace_segments flags) []"
proof -
  have i: "fold push_namespace segs out =
      fold (\<lambda>t out. if t \<in> set out then out else out @ [t]) (filter (\<lambda>t. t \<noteq> []) (map trim segs)) out"
    for segs out
    by (induction segs arbitrary: out) (simp_all add: push_namespace_def Let_def)
  have "fold (\<lambda>part out. fold push_namespace (split_on (CHR '','') part) out) flags out =
      fold (\<lambda>t out. if t \<in> set out then out else out @ [t]) (namespace_segments flags) out" for out
    by (induction flags arbitrary: out) (simp_all add: namespace_segments_def i)
  then show ?thesis by (simp add: deduped_explicit_namespaces_def)
qed

lemma remdups_snoc: "remdups (ys @ [x]) = remdups (removeAll x ys) @ [x]"
  by (induction ys) auto

lemma fold_dedup:
  "fold (\<lambda>t out. if t \<in> set out then out else out @ [t]) xs out
     = out @ rev (remdups (rev (filter (\<lambda>t. t \<notin> set out) xs)))"
proof (induction xs arbitrary: out)
  case (Cons x xs)
  have f: "filter (\<lambda>t. t \<notin> set (out @ [x])) xs = removeAll x (filter (\<lambda>t. t \<notin> set out) xs)"
    by (induction xs) auto
  show ?case
  proof (cases "x \<in> set out")
    case True
    then show ?thesis using Cons.IH [of out] by simp
  next
    case False
    then show ?thesis using Cons.IH [of "out @ [x]"]
      by (simp add: remdups_snoc f [simplified] rev_filter [symmetric] removeAll_filter_not_eq)
  qed
qed simp

definition first_occurrences :: "'a list \<Rightarrow> 'a list" where
  "first_occurrences xs = rev (remdups (rev xs))"

lemma first_occurrences_props [simp]:
  "set (first_occurrences xs) = set xs" "distinct (first_occurrences xs)"
  "first_occurrences xs = [] \<longleftrightarrow> xs = []"
  by (simp_all add: first_occurrences_def)

lemma deduped_explicit_namespaces_eq:
  "deduped_explicit_namespaces flags = first_occurrences (namespace_segments flags)"
  by (simp add: deduped_explicit_namespaces_fold fold_dedup first_occurrences_def)

lemma trim_Nil [simp]: "trim [] = []"
  by code_simp

lemma namespace_segments_nonempty: "[] \<notin> set (namespace_segments flags)"
  by (simp add: namespace_segments_def)

text \<open>The context a kubeconfig is used with, and the namespace this gives.\<close>

definition chosen_context :: "kubeconfig \<Rightarrow> context_selector \<Rightarrow> string option" where
  "chosen_context cfg selector =
     (case csel_context_name selector of Some n \<Rightarrow> Some n | None \<Rightarrow> kc_current_context cfg)"

definition context_entry :: "kubeconfig \<Rightarrow> context_selector \<Rightarrow> named_context option" where
  "context_entry cfg selector =
     (case chosen_context cfg selector of
        None \<Rightarrow> None
      | Some want \<Rightarrow> (case filter (\<lambda>c. nctx_name c = want) (kc_contexts cfg) of [] \<Rightarrow> None | c # _ \<Rightarrow> Some c))"

definition entry_namespace :: "named_context \<Rightarrow> string" where
  "entry_namespace c =
     (case nctx_context c of
        None \<Rightarrow> ''default''
      | Some ctx \<Rightarrow> (case kctx_namespace ctx of
            None \<Rightarrow> ''default''
          | Some ns \<Rightarrow> if trim ns = [] then ''default'' else ns))"

lemma entry_namespace_nonempty [simp]: "entry_namespace c \<noteq> []" "[] \<noteq> entry_namespace c"
  by (auto simp: entry_namespace_def split: option.split)

lemma find_filter: "find P xs = (case filter P xs of [] \<Rightarrow> None | x # _ \<Rightarrow> Some x)"
  by (induction xs) simp_all

lemma default_namespace_entry:
  "default_namespace cfg selector =
     (case context_entry cfg selector of
        None \<Rightarrow> Inl (CxContextNotFound (unwrap_or ''(none)'' (chosen_context cfg selector)))
      | Some c \<Rightarrow> Inr (entry_namespace c))"
proof -
  have "list_ex P xs \<longleftrightarrow> filter P xs \<noteq> []" for P and xs :: "named_context list"
    by (induction xs) simp_all
  then show ?thesis
    by (simp add: default_namespace_def pick_context_name_def find_context_def find_filter context_entry_def
        chosen_context_def entry_namespace_def unwrap_or_def split: option.split list.split)
qed

text \<open>
  C29: the scope of a run: without \<open>-A\<close> the namespaces are never empty, blank-free and free of
  duplicates: the trimmed comma-separated segments of the \<open>-n\<close> flags in order of first
  occurrence, or without flags the one namespace of the kube context: of the first entry of the
  kubeconfig with the name given by \<open>--context\<close> or else by \<open>current-context\<close>, \<open>default\<close> if that
  entry has none or a blank one; with \<open>-A\<close> there are none.  An omitted query becomes \<open>.*\<close> when a
  selector is given, and so does \<open>.\<close> with a field selector alone.  Every error is attributed:
  a missing query only without any selector, invalid flags only when flags are given and all
  blank, and the kubeconfig is consulted only when no namespace flag is given, failing with the
  error of its path, of its reader, or with the context that is not there.
\<close>

theorem run_scope_exact:
  "case resolve_run_input env inp context of
     Inr out \<Rightarrow>
       rro_all_namespaces out = rri_all_namespaces inp
       \<and> distinct (rro_namespaces out) \<and> [] \<notin> set (rro_namespaces out)
       \<and> (rro_namespaces out = [] \<longleftrightarrow> rri_all_namespaces inp)
       \<and> (if rri_all_namespaces inp then rro_namespaces out = []
          else if rri_namespace_flags inp = [] then
            (\<exists>path cfg c. kubeconfig_path env context = Inr path \<and> pe_read env path = Inr cfg
               \<and> context_entry cfg context = Some c \<and> rro_namespaces out = [entry_namespace c])
          else rro_namespaces out = first_occurrences (namespace_segments (rri_namespace_flags inp)))
       \<and> (case rri_query inp of
            None \<Rightarrow> rro_query out = ''.*'' \<and> rro_implicit_query out
          | Some q \<Rightarrow> \<not> rro_implicit_query out \<and> rro_query out =
              (if q = ''.'' \<and> rri_selector inp = None \<and> rri_field_selector inp \<noteq> None then ''.*'' else q))
   | Inl QueryRequired \<Rightarrow>
       rri_query inp = None \<and> rri_selector inp = None \<and> rri_field_selector inp = None
   | Inl InvalidNamespaceFlags \<Rightarrow>
       \<not> rri_all_namespaces inp \<and> rri_namespace_flags inp \<noteq> []
       \<and> namespace_segments (rri_namespace_flags inp) = []
   | Inl (RRContext e) \<Rightarrow>
       \<not> rri_all_namespaces inp \<and> rri_namespace_flags inp = []
       \<and> (case kubeconfig_path env context of
            Inl e' \<Rightarrow> e = e'
          | Inr path \<Rightarrow> (case pe_read env path of
                Inl msg \<Rightarrow> e = CxParse msg
              | Inr cfg \<Rightarrow> context_entry cfg context = None
                  \<and> e = CxContextNotFound (unwrap_or ''(none)'' (chosen_context cfg context))))"
proof (cases "resolve_pod_query inp")
  case (Inl e)
  then show ?thesis
    by (auto simp: resolve_run_input_def resolve_pod_query_def split: option.splits if_splits)
next
  case (Inr q)
  then have q: "case rri_query inp of None \<Rightarrow> q = ''.*'' \<and> implicit_query_from_selector inp 
      | Some q' \<Rightarrow> \<not> implicit_query_from_selector inp \<and>
          q = (if q' = ''.'' \<and> rri_selector inp = None \<and> rri_field_selector inp \<noteq> None then ''.*'' else q')"
    by (auto simp: resolve_pod_query_def implicit_query_from_selector_def split: option.splits if_splits)
  show ?thesis
  proof (cases "resolve_namespaces env inp context")
    case (Inl e)
    then show ?thesis
      using Inr
      by (auto simp: resolve_run_input_def resolve_namespaces_def deduped_explicit_namespaces_eq
          bind_result_Inl_iff map_err_Inl_iff Let_def namespace_segments_def resolve_kubeconfig_def
          default_namespace_entry bind_result_Inr_iff split: if_splits option.splits sum.splits)
  next
    case (Inr ns)
    have "distinct ns \<and> [] \<notin> set ns \<and> (ns = [] \<longleftrightarrow> rri_all_namespaces inp)
       \<and> (if rri_all_namespaces inp then ns = []
          else if rri_namespace_flags inp = [] then
            (\<exists>path cfg c. kubeconfig_path env context = Inr path \<and> pe_read env path = Inr cfg
               \<and> context_entry cfg context = Some c \<and> ns = [entry_namespace c])
          else ns = first_occurrences (namespace_segments (rri_namespace_flags inp)))"
      using Inr namespace_segments_nonempty [of "rri_namespace_flags inp"]
      by (auto simp: resolve_namespaces_def deduped_explicit_namespaces_eq bind_result_Inr_iff Let_def
          namespace_segments_def resolve_kubeconfig_def map_err_Inr_iff default_namespace_entry
          split: if_splits option.splits)
    with Inr \<open>resolve_pod_query inp = Inr q\<close> q show ?thesis
      by (cases "rri_query inp"; cases "rri_namespace_flags inp = []"; cases "rri_all_namespaces inp")
        (simp_all add: resolve_run_input_def)
  qed
qed

end
