(* ===== verification/Config.thy ===== *)
theory Config
  imports Pipeline Containers Run_Resolution
begin

text \<open>
  The configuration of a run (\<open>runtime/config.rs\<close>, \<open>format_display.rs\<close>), the compilation of the
  pipeline from it (\<open>PipelineSpec::from_run_config\<close> in \<open>runtime/spec.rs\<close>) and the paginated pod
  list of one-shot runs (\<open>runtime/list_pods.rs\<close>).
\<close>

section \<open>Display knobs (\<open>format_display.rs\<close>)\<close>

datatype timestamp_style = TsOmit | TsRfc3339 | TsSternShort | TsEpochSeconds

datatype timestamp_zone = ZUtc | ZLocal | ZIana string

text \<open>\<open>tz_from_str\<close> says which zone names chrono-tz knows, up to their canonical name.\<close>

definition timestamp_zone_parse_arg :: "(string \<Rightarrow> string option) \<Rightarrow> string \<Rightarrow> string + timestamp_zone" where
  "timestamp_zone_parse_arg tz_from_str s =
     (let t = trim s in
      if t = [] then Inl ''empty --timezone''
      else if eq_ignore_ascii_case t ''utc'' then Inr ZUtc
      else if eq_ignore_ascii_case t ''local'' then Inr ZLocal
      else (case tz_from_str t of
              Some z \<Rightarrow> Inr (ZIana z)
            | None \<Rightarrow> Inl (''invalid --timezone ('' @ t @ '')'')))"

section \<open>Configuration (\<open>runtime/config.rs\<close>)\<close>

datatype backpressure_policy = BpBlocking | BpLossy

definition from_lossy :: "bool \<Rightarrow> backpressure_policy" where
  "from_lossy lossy = (if lossy then BpLossy else BpBlocking)"

record runtime_fwd_config =
  fwd_buffer_size :: nat
  fwd_lossy :: bool
  fwd_stats :: "nat option"
  fwd_max_log_requests :: nat

definition render_channel_capacity :: "runtime_fwd_config \<Rightarrow> nat" where
  "render_channel_capacity fwd = max (fwd_buffer_size fwd) 1"

definition resolved_mux_policy :: "runtime_fwd_config \<Rightarrow> backpressure_policy" where
  "resolved_mux_policy fwd = from_lossy (fwd_lossy fwd)"

datatype formatter_choice =
  FmtDefault (fmt_timestamp_style: timestamp_style) (fmt_timestamp_zone: timestamp_zone)
    (fmt_color_enabled: bool) (fmt_pod_colors: bool) (fmt_container_colors: bool)
| FmtJson
| FmtExtJson (fmt_all_namespaces: bool)
| FmtPpExtJson (fmt_pp_all_namespaces: bool)
| FmtRaw

record core_run_config =
  cfg_context :: context_selector
  cfg_query :: string
  cfg_namespaces :: "string list"
  cfg_all_namespaces :: bool
  cfg_selector :: "string option"
  cfg_field_selector :: "string option"
  cfg_node :: "string option"
  cfg_exclude_pod :: "string list"
  cfg_container :: string
  cfg_exclude_container :: "string list"
  cfg_container_discovery :: container_discover_opts
  cfg_pod_condition :: "pod_condition_filter option"
  cfg_pod_log :: pod_log_request
  cfg_cursor_reconnect :: bool
  cfg_include :: "string list"
  cfg_exclude :: "string list"
  cfg_highlight :: "string list"
  cfg_only_log_lines :: bool
  cfg_filter_on :: filter_on
  cfg_json_query :: "string option"
  cfg_json_query_mode :: query_mode
  cfg_level_key :: "string option"
  cfg_exit_on :: "string list"
  cfg_exit_on_level :: "exit_on_level option"
  cfg_formatter :: formatter_choice
  cfg_diff_container :: bool
  cfg_fwd :: runtime_fwd_config

datatype jq_error = JqParse string | JqEval string

fun jq_error_display :: "jq_error \<Rightarrow> string" where
  "jq_error_display (JqParse e) = ''parse error: '' @ e"
| "jq_error_display (JqEval e) = ''evaluation error: '' @ e"

datatype run_error =
  ReContext context_error
| ReQuery query_parse_error
| RePodList pod_list_error
| ReContainerRegex string
| ReJq jq_error
| ReKube kube_error
| ReOther string
| ReExitOnTriggered

fun run_error_display :: "run_error \<Rightarrow> string" where
  "run_error_display (ReContext e) = context_error_display e"
| "run_error_display (ReQuery e) = query_parse_error_display e"
| "run_error_display (RePodList e) = pod_list_error_display e"
| "run_error_display (ReContainerRegex e) = ''invalid container regex: '' @ e"
| "run_error_display (ReJq e) = jq_error_display e"
| "run_error_display (ReKube e) = kube_error_display e"
| "run_error_display (ReOther msg) = msg"
| "run_error_display ReExitOnTriggered = ''--exit-on / --exit-on-level condition matched''"

record run_outcome =
  ro_had_source_errors :: bool

text \<open>\<open>jq_load\<close> and \<open>jq_compile\<close> are jaq's loader and compiler, with the debug text of their errors.\<close>

record jq_compiler =
  jc_load :: "string \<Rightarrow> string + string"
  jc_compile :: "string \<Rightarrow> string + jq_filter"

definition validate_filter :: "jq_compiler \<Rightarrow> string \<Rightarrow> jq_error + jq_filter" where
  "validate_filter jc expr =
     bind_result (map_err JqParse (jc_load jc expr)) (\<lambda>modules.
     map_err JqParse (jc_compile jc modules))"

section \<open>Compiling the pipeline (\<open>PipelineSpec::from_run_config\<close>)\<close>

definition compile_list :: "regex_lib \<Rightarrow> string list \<Rightarrow> string + regex list" where
  "compile_list regex_new patterns = collect_results regex_new patterns"

definition color_assign_opts_of :: "formatter_choice \<Rightarrow> bool \<Rightarrow> color_assign_opts" where
  "color_assign_opts_of formatter diff_container =
     (case formatter of
        FmtDefault _ _ _ pod_colors container_colors \<Rightarrow>
          \<lparr>ca_pod_colors = pod_colors, ca_container_colors = container_colors,
           ca_diff_container = diff_container\<rparr>
      | _ \<Rightarrow> \<lparr>ca_pod_colors = False, ca_container_colors = False, ca_diff_container = False\<rparr>)"

definition from_run_config :: "regex_lib \<Rightarrow> jq_compiler \<Rightarrow> core_run_config \<Rightarrow> run_error + pipeline_stages" where
  "from_run_config regex_new jc cfg =
     bind_result (map_err (\<lambda>e. ReOther (''invalid --include regex: '' @ e))
       (compile_list regex_new (cfg_include cfg))) (\<lambda>includes.
     bind_result (map_err (\<lambda>e. ReOther (''invalid --exclude regex: '' @ e))
       (compile_list regex_new (cfg_exclude cfg))) (\<lambda>excludes.
     bind_result (case cfg_json_query cfg of
         None \<Rightarrow> Inr None
       | Some expr \<Rightarrow> bind_result (map_err ReJq (validate_filter jc expr))
                        (\<lambda>f. Inr (Some (f, cfg_json_query_mode cfg)))) (\<lambda>jq.
     bind_result (map_err (\<lambda>e. ReOther (''invalid --exit-on regex: '' @ e))
       (compile_list regex_new (cfg_exit_on cfg))) (\<lambda>exit_on.
     Inr \<lparr>pl_includes = includes, pl_excludes = excludes, pl_filter_on = cfg_filter_on cfg,
          pl_jq = jq, pl_level_key = cfg_level_key cfg,
          pl_color_assign = color_assign_opts_of (cfg_formatter cfg) (cfg_diff_container cfg),
          pl_exit_on = exit_on, pl_exit_on_level = cfg_exit_on_level cfg,
          pl_needs_json_annotation = needs_json_annotation jq (cfg_level_key cfg)\<rparr>))))"

lemma from_run_config_ok:
  assumes "\<And>p. p \<in> set (cfg_include cfg @ cfg_exclude cfg @ cfg_exit_on cfg) \<Longrightarrow> \<exists>r. regex_new p = Inr r"
    and "\<And>expr. cfg_json_query cfg = Some expr \<Longrightarrow> \<exists>f. validate_filter jc expr = Inr f"
  shows "\<exists>p. from_run_config regex_new jc cfg = Inr p"
proof -
  from assms(1) obtain i e x where "compile_list regex_new (cfg_include cfg) = Inr i"
    "compile_list regex_new (cfg_exclude cfg) = Inr e" "compile_list regex_new (cfg_exit_on cfg) = Inr x"
    using collect_results_ok_iff [of regex_new "cfg_include cfg"]
      collect_results_ok_iff [of regex_new "cfg_exclude cfg"]
      collect_results_ok_iff [of regex_new "cfg_exit_on cfg"]
    by (auto simp: compile_list_def)
  then show ?thesis
    using assms(2) by (cases "cfg_json_query cfg") (auto simp: from_run_config_def)
qed

text \<open>
  A configuration without jq filter and level key compiles to a pipeline without JSON
  annotation, and the compiled regexes are the configured patterns, one for one and in order.
\<close>

lemma from_run_config_faithful:
  assumes "from_run_config regex_new jc cfg = Inr p"
  shows "map Inr (pl_includes p) = map regex_new (cfg_include cfg)
    \<and> map Inr (pl_excludes p) = map regex_new (cfg_exclude cfg)
    \<and> map Inr (pl_exit_on p) = map regex_new (cfg_exit_on cfg)
    \<and> (pl_jq p = None \<longleftrightarrow> cfg_json_query cfg = None) \<and> pl_level_key p = cfg_level_key cfg
    \<and> (pl_needs_json_annotation p \<longleftrightarrow> pl_jq p \<noteq> None \<or> pl_level_key p \<noteq> None)"
  using assms
  by (auto simp: from_run_config_def compile_list_def bind_result_Inr_iff collect_results_map
      needs_json_annotation_def split: option.splits)

text \<open>The run's pipeline is what the builder, set to the same parts in any order, builds.\<close>

lemma from_run_config_builder:
  assumes "from_run_config regex_new jc cfg = Inr p"
  shows "p = builder_build (with_exit_on_level (cfg_exit_on_level cfg) (with_exit_on (pl_exit_on p)
     (with_color_assign (color_assign_opts_of (cfg_formatter cfg) (cfg_diff_container cfg))
     (with_level_key (cfg_level_key cfg) (with_jq (pl_jq p) (with_filter_on (cfg_filter_on cfg)
     (with_excludes (pl_excludes p) (with_includes (pl_includes p) builder_default))))))))"
  using assms
  by (auto simp: from_run_config_def bind_result_Inr_iff builder_defs builder_build_def builder_default_def
      needs_json_annotation_def)

section \<open>Listing pods (\<open>runtime/list_pods.rs\<close>)\<close>

record pod_page =
  pg_items :: "pod list"
  pg_continue :: "string option"

definition max_list_pages :: nat where
  "max_list_pages = 1000"

fun list_pods_from ::
  "(list_params \<Rightarrow> kube_error + pod_page) \<Rightarrow> nat \<Rightarrow> list_params \<Rightarrow> pod list \<Rightarrow> run_error + pod list" where
  "list_pods_from api 0 params pods =
     Inl (ReOther (''pod list pagination exceeded '' @ show_nat max_list_pages @ '' pages''))"
| "list_pods_from api (Suc n) params pods =
     bind_result (map_err ReKube (api params)) (\<lambda>page.
       let pods = pods @ pg_items page in
       case pg_continue page of
         None \<Rightarrow> Inr pods
       | Some token \<Rightarrow>
           if token = [] then Inr pods
           else list_pods_from api n (params\<lparr>lpm_continue := Some token\<rparr>) pods)"

definition list_pods_paginated ::
  "(list_params \<Rightarrow> kube_error + pod_page) \<Rightarrow> list_params \<Rightarrow> run_error + pod list" where
  "list_pods_paginated api params = list_pods_from api max_list_pages params []"

text \<open>A chain of pages: each is what the server answers to the continue token of the one before.\<close>

fun page_chain :: "(list_params \<Rightarrow> kube_error + pod_page) \<Rightarrow> list_params \<Rightarrow> pod_page list \<Rightarrow> bool" where
  "page_chain api params [] = False"
| "page_chain api params [pg] =
     (api params = Inr pg \<and> (pg_continue pg = None \<or> pg_continue pg = Some []))"
| "page_chain api params (pg # rest) =
     (api params = Inr pg \<and> (\<exists>t. pg_continue pg = Some t \<and> t \<noteq> []
        \<and> page_chain api (params\<lparr>lpm_continue := Some t\<rparr>) rest))"

lemma page_chain_Cons:
  "page_chain api params (pg # rest) \<longleftrightarrow>
     api params = Inr pg \<and>
     (if rest = [] then pg_continue pg = None \<or> pg_continue pg = Some []
      else \<exists>t. pg_continue pg = Some t \<and> t \<noteq> [] \<and> page_chain api (params\<lparr>lpm_continue := Some t\<rparr>) rest)"
  by (cases rest) auto

lemma list_pods_from_Inr:
  "list_pods_from api n params acc = Inr pods \<longleftrightarrow>
     (\<exists>pages. page_chain api params pages \<and> length pages \<le> n \<and> pods = acc @ concat (map pg_items pages))"
proof (induction n arbitrary: params acc)
  case 0
  have "\<not> page_chain api params []" by simp
  then show ?case by auto
next
  case (Suc n)
  show ?case
  proof (cases "api params")
    case (Inl e)
    then have "\<not> page_chain api params pages" for pages
      by (cases pages) (simp_all add: page_chain_Cons)
    with Inl show ?thesis by simp
  next
    case (Inr pg)
    show ?thesis
    proof (cases "pg_continue pg = None \<or> pg_continue pg = Some []")
      case True
      then have "list_pods_from api (Suc n) params acc = Inr (acc @ pg_items pg)"
        using Inr by auto
      moreover have "page_chain api params pages \<longleftrightarrow> pages = [pg]" for pages
        using Inr True by (cases pages) (auto simp: page_chain_Cons)
      ultimately show ?thesis by auto
    next
      case False
      then obtain t where t: "pg_continue pg = Some t" "t \<noteq> []" by (cases "pg_continue pg") auto
      have step: "list_pods_from api (Suc n) params acc
          = list_pods_from api n (params\<lparr>lpm_continue := Some t\<rparr>) (acc @ pg_items pg)"
        using Inr t by simp
      have "page_chain api params pages \<longleftrightarrow>
          (\<exists>rest. pages = pg # rest \<and> page_chain api (params\<lparr>lpm_continue := Some t\<rparr>) rest)" for pages
        using Inr t by (cases pages) (auto simp: page_chain_Cons)
      then show ?thesis unfolding step Suc.IH by auto
    qed
  qed
qed

lemma list_pods_from_error:
  "case list_pods_from api n ps acc of Inr _ \<Rightarrow> True
   | Inl e \<Rightarrow> (\<exists>k. e = ReKube k) \<or> e = ReOther (''pod list pagination exceeded '' @ show_nat max_list_pages @ '' pages'')"
proof (induction n arbitrary: ps acc)
  case (Suc n)
  then show ?case
    by (cases "api ps") (auto simp: Let_def split: option.splits)
qed simp

lemma list_pods_paginated_error:
  "case list_pods_paginated api params of Inr _ \<Rightarrow> True
   | Inl e \<Rightarrow> (\<exists>k. e = ReKube k) \<or> e = ReOther ''pod list pagination exceeded 1000 pages''"
proof -
  have s: "show_nat max_list_pages = ''1000''" by code_simp
  show ?thesis
    using list_pods_from_error [of api max_list_pages params "[]", unfolded s append.simps]
    by (simp add: list_pods_paginated_def)
qed

text \<open>
  C34: listing pods succeeds exactly when the server's chain of pages ends within 1000 pages,
  and then returns all pods of the chain, page after page; it always terminates, with an
  error of the server or the pagination error otherwise.
\<close>

theorem list_pods_paginated_exact:
  "(list_pods_paginated api params = Inr pods \<longleftrightarrow>
      (\<exists>pages. page_chain api params pages \<and> length pages \<le> 1000 \<and> pods = concat (map pg_items pages)))
   \<and> (case list_pods_paginated api params of Inr _ \<Rightarrow> True
      | Inl e \<Rightarrow> (\<exists>k. e = ReKube k) \<or> e = ReOther ''pod list pagination exceeded 1000 pages'')"
  using list_pods_paginated_error [of api params]
  by (simp add: list_pods_paginated_def list_pods_from_Inr) (simp add: max_list_pages_def)

end
