(* ===== verification/Cli.thy ===== *)
theory Cli
  imports Config
begin

text \<open>
  The command line front end (\<open>src/cli\<close>, \<open>src/run_config\<close>, \<open>src/run_defaults.rs\<close>,
  \<open>src/main.rs\<close>): the parsed flags, their validation, the mapping into the configuration of a
  run, and the exit code of the process.  clap's parsing itself is not modelled; the record
  holds what it delivers.
\<close>

section \<open>Flags (\<open>cli/args.rs\<close>)\<close>

datatype container_state_arg = CsaRunning | CsaWaiting | CsaTerminated | CsaAll
datatype timestamp_arg = TaDefault | TaOmit | TaShort | TaEpoch
datatype filter_on_arg = FoaOriginal | FoaTransformed
datatype jq_mode_arg = JmaFilter | JmaReplace | JmaAppend
datatype color_arg = CaAuto | CaAlways | CaNever
datatype format_arg = FaDefault | FaJson | FaExtJson | FaPpExtJson | FaRaw

record cli =
  cli_query :: "string option"
  cli_kubeconfig :: "string option"
  cli_context :: "string option"
  cli_namespaces :: "string list"
  cli_all_namespaces :: bool
  cli_selector :: "string option"
  cli_field_selector :: "string option"
  cli_node :: "string option"
  cli_exclude_pod :: "string list"
  cli_container :: string
  cli_exclude_container :: "string list"
  cli_init_containers :: "bool option"
  cli_no_init_containers :: bool
  cli_ephemeral_containers :: "bool option"
  cli_no_ephemeral_containers :: bool
  cli_container_states :: "container_state_arg list"
  cli_follow_short :: bool
  cli_no_follow :: bool
  cli_tail :: "int option"
  cli_condition :: "string option"
  cli_since :: "string option"
  cli_since_time :: "string option"
  cli_previous :: bool
  cli_cursor_reconnect :: bool
  cli_include :: "string list"
  cli_exclude :: "string list"
  cli_highlight :: "string list"
  cli_only_log_lines :: bool
  cli_filter_on :: filter_on_arg
  cli_json_query :: "string option"
  cli_jq_mode :: jq_mode_arg
  cli_level_key :: "string option"
  cli_exit_on :: "string list"
  cli_exit_on_level :: "string option"
  cli_format :: format_arg
  cli_timestamps :: "timestamp_arg option"
  cli_timezone :: "string option"
  cli_color :: color_arg
  cli_pod_colors :: "bool option"
  cli_no_pod_colors :: bool
  cli_container_colors :: "bool option"
  cli_no_container_colors :: bool
  cli_diff_container :: bool
  cli_buffer_size :: nat
  cli_lossy :: bool
  cli_stats :: bool
  cli_stats_interval :: nat
  cli_max_log_requests :: "nat option"

text \<open>What clap delivers for an empty command line.\<close>

definition cli_defaults :: cli where
  "cli_defaults =
     \<lparr>cli_query = None, cli_kubeconfig = None, cli_context = None, cli_namespaces = [],
      cli_all_namespaces = False, cli_selector = None, cli_field_selector = None, cli_node = None,
      cli_exclude_pod = [], cli_container = ''.*'', cli_exclude_container = [],
      cli_init_containers = None, cli_no_init_containers = False,
      cli_ephemeral_containers = None, cli_no_ephemeral_containers = False,
      cli_container_states = [], cli_follow_short = False, cli_no_follow = False,
      cli_tail = None, cli_condition = None, cli_since = None, cli_since_time = None,
      cli_previous = False, cli_cursor_reconnect = False, cli_include = [], cli_exclude = [],
      cli_highlight = [], cli_only_log_lines = False, cli_filter_on = FoaOriginal,
      cli_json_query = None, cli_jq_mode = JmaFilter, cli_level_key = None, cli_exit_on = [],
      cli_exit_on_level = None, cli_format = FaDefault, cli_timestamps = None,
      cli_timezone = None, cli_color = CaAuto, cli_pod_colors = None, cli_no_pod_colors = False,
      cli_container_colors = None, cli_no_container_colors = False, cli_diff_container = False,
      cli_buffer_size = 4096, cli_lossy = False, cli_stats = False,
      cli_stats_interval = 30000000000, cli_max_log_requests = None\<rparr>"

text \<open>
  The functions of other crates the front end calls.  \<open>cx_parse_duration\<close> is humantime's parser:
  whole seconds (a \<open>u64\<close>) and nanoseconds.
\<close>

record cli_ctx =
  cx_regex :: regex_lib
  cx_jq :: jq_compiler
  cx_parse_ts :: "string \<Rightarrow> timestamp option"
  cx_parse_duration :: "string \<Rightarrow> string + u64 \<times> nat"
  cx_tz :: "string \<Rightarrow> string option"
  cx_env :: process_env
  cx_stdout_tty :: bool

definition parse_stats_interval :: "cli_ctx \<Rightarrow> string \<Rightarrow> string + u64 \<times> nat" where
  "parse_stats_interval cx s =
     bind_result (map_err (\<lambda>e. ''invalid --stats-interval duration: '' @ e) (cx_parse_duration cx s))
       (\<lambda>interval. if interval = (0, 0) then Inl ''--stats-interval must be > 0'' else Inr interval)"

section \<open>Run defaults (\<open>run_defaults.rs\<close>)\<close>

fun run_resolution_error_display :: "run_resolution_error \<Rightarrow> string" where
  "run_resolution_error_display QueryRequired =
     ''pod query (QUERY) is required unless `-l` or `--field-selector` is set''"
| "run_resolution_error_display InvalidNamespaceFlags = ''namespace flag value must not be empty''"
| "run_resolution_error_display (RRContext e) = context_error_display e"

definition run_resolution_input_of :: "cli \<Rightarrow> run_resolution_input" where
  "run_resolution_input_of c =
     \<lparr>rri_query = cli_query c, rri_selector = cli_selector c, rri_field_selector = cli_field_selector c,
      rri_node = cli_node c, rri_all_namespaces = cli_all_namespaces c,
      rri_namespace_flags = cli_namespaces c\<rparr>"

definition cli_context_selector :: "cli \<Rightarrow> context_selector" where
  "cli_context_selector c =
     \<lparr>csel_kubeconfig_path = cli_kubeconfig c, csel_context_name = cli_context c\<rparr>"

definition resolved_run :: "cli_ctx \<Rightarrow> cli \<Rightarrow> string + run_resolution_output" where
  "resolved_run cx c = map_err run_resolution_error_display
     (resolve_run_input (cx_env cx) (run_resolution_input_of c) (cli_context_selector c))"

definition resolved_pod_query :: "cli \<Rightarrow> string + string" where
  "resolved_pod_query c = map_err run_resolution_error_display (resolve_pod_query (run_resolution_input_of c))"

definition resolved_namespaces :: "cli_ctx \<Rightarrow> cli \<Rightarrow> string + string list" where
  "resolved_namespaces cx c = map_err run_resolution_error_display
     (resolve_namespaces (cx_env cx) (run_resolution_input_of c) (cli_context_selector c))"

section \<open>Validation (\<open>cli/validate.rs\<close>)\<close>

text \<open>\<open>str::parse::<i64>()\<close>.\<close>

definition parse_digits :: "string \<Rightarrow> nat option" where
  "parse_digits s =
     (if s \<noteq> [] \<and> list_all (\<lambda>c. 48 \<le> byte_of c \<and> byte_of c \<le> 57) s
      then Some (foldl (\<lambda>n c. 10 * n + (byte_of c - 48)) 0 s) else None)"

definition parse_i64 :: "string \<Rightarrow> int option" where
  "parse_i64 s =
     (case s of
        [] \<Rightarrow> None
      | c # ds \<Rightarrow>
          if c = CHR ''-'' then
            (case parse_digits ds of Some n \<Rightarrow> if n \<le> 2 ^ 63 then Some (- int n) else None | None \<Rightarrow> None)
          else
            (case parse_digits (if c = CHR ''+'' then ds else s) of
               Some n \<Rightarrow> if n < 2 ^ 63 then Some (int n) else None | None \<Rightarrow> None))"

definition parse_since :: "cli_ctx \<Rightarrow> string \<Rightarrow> string + int" where
  "parse_since cx raw =
     (let s = trim raw in
      if s = [] then Inl ''empty --since''
      else (case cx_parse_duration cx s of
          Inr (secs, _) \<Rightarrow>
            if uint secs < 2 ^ 63 then Inr (uint secs) else Inl ''--since duration too large''
        | Inl _ \<Rightarrow>
            (case parse_i64 s of
               None \<Rightarrow> Inl (''invalid --since (expected duration or seconds): '' @ s)
             | Some n \<Rightarrow> if n < 0 then Inl ''--since must be >= 0'' else Inr n)))"

definition cli_follow :: "cli \<Rightarrow> bool" where
  "cli_follow c \<longleftrightarrow> cli_follow_short c \<or> \<not> cli_no_follow c"

text \<open>\<open>if cond { return Err(msg) }\<close>, and a check of a flag that may be absent.\<close>

definition reject_when :: "bool \<Rightarrow> string \<Rightarrow> string + unit" where
  "reject_when b msg = (if b then Inl msg else Inr ())"

definition check_opt :: "('a \<Rightarrow> 'e + 'b) \<Rightarrow> 'a option \<Rightarrow> 'e + unit" where
  "check_opt f x = (case x of None \<Rightarrow> Inr () | Some a \<Rightarrow> bind_result (f a) (\<lambda>_. Inr ()))"

fun check_seq :: "('e + unit) list \<Rightarrow> 'e + unit" where
  "check_seq [] = Inr ()"
| "check_seq (r # rs) = bind_result r (\<lambda>_. check_seq rs)"

definition validate :: "cli_ctx \<Rightarrow> cli \<Rightarrow> string + unit" where
  "validate cx c = check_seq
     [reject_when (case cli_tail c of Some v \<Rightarrow> v < 0 | None \<Rightarrow> False) ''--tail must be >= 0'',
      check_opt (parse_since cx) (cli_since c),
      check_opt (parse_since_time (cx_parse_ts cx)) (cli_since_time c),
      reject_when (cli_buffer_size c = 0) ''--buffer-size must be > 0'',
      reject_when (cli_max_log_requests c = Some 0) ''--max-log-requests must be > 0 when set'',
      check_opt (timestamp_zone_parse_arg (cx_tz cx)) (cli_timezone c),
      reject_when (cli_no_init_containers c \<and> cli_init_containers c = Some True)
        ''`--no-init-containers` conflicts with an explicit `--init-containers=true`'',
      reject_when (cli_no_ephemeral_containers c \<and> cli_ephemeral_containers c = Some True)
        ''`--no-ephemeral-containers` conflicts with `--ephemeral-containers=true`'',
      reject_when (cli_no_pod_colors c \<and> cli_pod_colors c = Some True)
        ''`--no-pod-colors` conflicts with an explicit `--pod-colors=true`'',
      reject_when (cli_no_container_colors c \<and> cli_container_colors c = Some True)
        ''`--no-container-colors` conflicts with an explicit `--container-colors=true`'',
      check_all (compile_user_regex (cx_regex cx) ''--exclude-pod'') (cli_exclude_pod c),
      check_all (compile_user_regex (cx_regex cx) ''--exclude-container'') (cli_exclude_container c),
      check_all (compile_user_regex (cx_regex cx) ''--include'') (cli_include c),
      check_all (compile_user_regex (cx_regex cx) ''--exclude'') (cli_exclude c),
      bind_result (compile_user_regex (cx_regex cx) ''--container'' (cli_container c)) (\<lambda>_. Inr ()),
      check_all (compile_user_regex (cx_regex cx) ''--highlight'') (cli_highlight c),
      check_all (compile_user_regex (cx_regex cx) ''--exit-on'') (cli_exit_on c),
      check_opt (\<lambda>e. map_err jq_error_display (validate_filter (cx_jq cx) e)) (cli_json_query c),
      check_opt parse_exit_on_level (cli_exit_on_level c),
      reject_when (cli_condition c \<noteq> None \<and> cli_follow c \<and> cli_tail c \<noteq> Some 0)
        ''--condition only works with --no-follow or --tail=0'',
      check_opt (\<lambda>x. map_err parse_pod_condition_error_display (parse_pod_condition x)) (cli_condition c),
      bind_result (resolved_pod_query c) (\<lambda>_. Inr ()),
      bind_result (resolved_namespaces cx c) (\<lambda>_. Inr ())]"

section \<open>The run configuration (\<open>run_config/mod.rs\<close>)\<close>

definition resolved_init_include :: "cli \<Rightarrow> bool" where
  "resolved_init_include c =
     (if cli_no_init_containers c then False else unwrap_or True (cli_init_containers c))"

definition resolved_ephemeral_include :: "cli \<Rightarrow> bool" where
  "resolved_ephemeral_include c =
     (if cli_no_ephemeral_containers c then False else unwrap_or True (cli_ephemeral_containers c))"

definition resolved_pod_colors :: "cli \<Rightarrow> bool" where
  "resolved_pod_colors c = (if cli_no_pod_colors c then False else unwrap_or True (cli_pod_colors c))"

definition resolved_container_colors :: "cli \<Rightarrow> bool" where
  "resolved_container_colors c =
     (if cli_no_container_colors c then False
      else (case cli_container_colors c of Some v \<Rightarrow> v | None \<Rightarrow> resolved_pod_colors c))"

fun state_bucket :: "container_state_arg \<Rightarrow> container_lifecycle_bucket option" where
  "state_bucket CsaRunning = Some Running"
| "state_bucket CsaWaiting = Some Waiting"
| "state_bucket CsaTerminated = Some Terminated"
| "state_bucket CsaAll = None"

definition resolved_container_state_policy :: "container_state_arg list \<Rightarrow> container_state_policy" where
  "resolved_container_state_policy states =
     (if states = [] then PolicyAll
      else if CsaAll \<in> set states then PolicyAll
      else Subset (fold (\<lambda>s hs. case state_bucket s of Some b \<Rightarrow> insert b hs | None \<Rightarrow> hs) states {}))"

text \<open>\<open>opt.map(f).transpose()?\<close>.\<close>

definition transpose_map :: "('a \<Rightarrow> 'e + 'b) \<Rightarrow> 'a option \<Rightarrow> 'e + 'b option" where
  "transpose_map f x = (case x of None \<Rightarrow> Inr None | Some a \<Rightarrow> bind_result (f a) (\<lambda>b. Inr (Some b)))"

definition timestamp_style_of :: "timestamp_arg option \<Rightarrow> timestamp_style" where
  "timestamp_style_of t =
     (case t of None \<Rightarrow> TsOmit | Some TaOmit \<Rightarrow> TsOmit | Some TaDefault \<Rightarrow> TsRfc3339
      | Some TaShort \<Rightarrow> TsSternShort | Some TaEpoch \<Rightarrow> TsEpochSeconds)"

definition formatter_of :: "cli_ctx \<Rightarrow> cli \<Rightarrow> timestamp_zone \<Rightarrow> bool \<Rightarrow> formatter_choice" where
  "formatter_of cx c zone all_ns =
     (case cli_format c of
        FaDefault \<Rightarrow> FmtDefault (timestamp_style_of (cli_timestamps c)) zone
          (case cli_color c of CaNever \<Rightarrow> False | CaAlways \<Rightarrow> True | CaAuto \<Rightarrow> cx_stdout_tty cx)
          (resolved_pod_colors c) (resolved_container_colors c)
      | FaJson \<Rightarrow> FmtJson
      | FaExtJson \<Rightarrow> FmtExtJson all_ns
      | FaPpExtJson \<Rightarrow> FmtPpExtJson all_ns
      | FaRaw \<Rightarrow> FmtRaw)"

definition core_run_config_of :: "cli_ctx \<Rightarrow> cli \<Rightarrow> string + core_run_config" where
  "core_run_config_of cx c =
     bind_result (transpose_map (parse_since cx) (cli_since c)) (\<lambda>since.
     bind_result (transpose_map (parse_since_time (cx_parse_ts cx)) (cli_since_time c)) (\<lambda>since_time.
     bind_result (case cli_timezone c of
         Some z \<Rightarrow> timestamp_zone_parse_arg (cx_tz cx) z | None \<Rightarrow> Inr ZLocal) (\<lambda>zone.
     let resolved_max = unwrap_or (if cli_follow c then 50 else 5) (cli_max_log_requests c) in
     bind_result (resolved_run cx c) (\<lambda>resolution.
     let all_ns = rro_all_namespaces resolution; formatter = formatter_of cx c zone all_ns in
     bind_result (transpose_map (\<lambda>x. map_err parse_pod_condition_error_display (parse_pod_condition x))
       (cli_condition c)) (\<lambda>condition.
     bind_result (transpose_map parse_exit_on_level (cli_exit_on_level c)) (\<lambda>level.
     Inr \<lparr>cfg_context = cli_context_selector c,
          cfg_query = rro_query resolution,
          cfg_namespaces = rro_namespaces resolution,
          cfg_all_namespaces = all_ns,
          cfg_selector = cli_selector c,
          cfg_field_selector = cli_field_selector c,
          cfg_node = cli_node c,
          cfg_exclude_pod = cli_exclude_pod c,
          cfg_container = cli_container c,
          cfg_exclude_container = cli_exclude_container c,
          cfg_container_discovery =
            \<lparr>cd_include_init_containers = resolved_init_include c,
             cd_include_ephemeral_containers = resolved_ephemeral_include c,
             cd_state_policy = resolved_container_state_policy (cli_container_states c)\<rparr>,
          cfg_pod_condition = condition,
          cfg_pod_log =
            \<lparr>plr_follow = cli_follow c, plr_tail = cli_tail c, plr_since_seconds = since,
             plr_since_time = since_time, plr_previous = cli_previous c\<rparr>,
          cfg_cursor_reconnect = (cli_cursor_reconnect c \<and> cli_follow c),
          cfg_include = cli_include c,
          cfg_exclude = cli_exclude c,
          cfg_highlight = cli_highlight c,
          cfg_only_log_lines = cli_only_log_lines c,
          cfg_filter_on =
            (case cli_filter_on c of FoaOriginal \<Rightarrow> Original | FoaTransformed \<Rightarrow> Transformed),
          cfg_json_query = cli_json_query c,
          cfg_json_query_mode =
            (case cli_jq_mode c of JmaFilter \<Rightarrow> Filter | JmaReplace \<Rightarrow> Replace | JmaAppend \<Rightarrow> Append),
          cfg_level_key = cli_level_key c,
          cfg_exit_on = cli_exit_on c,
          cfg_exit_on_level = level,
          cfg_formatter = formatter,
          cfg_diff_container = cli_diff_container c,
          cfg_fwd =
            \<lparr>fwd_buffer_size = cli_buffer_size c, fwd_lossy = cli_lossy c,
             fwd_stats = (if cli_stats c then Some (cli_stats_interval c) else None),
             fwd_max_log_requests = resolved_max\<rparr>\<rparr>))))))"

section \<open>Validated flags give a configuration\<close>

lemma check_seq_ok_iff: "check_seq rs = Inr () \<longleftrightarrow> list_all (\<lambda>r. r = Inr ()) rs"
  by (induction rs) (auto simp: bind_result_Inr_iff)

lemma reject_when_ok [simp]: "reject_when b msg = Inr () \<longleftrightarrow> \<not> b"
  by (simp add: reject_when_def)

lemma check_opt_ok: "check_opt f x = Inr () \<longleftrightarrow> (\<exists>y. transpose_map f x = Inr y)"
  by (cases x) (auto simp: check_opt_def transpose_map_def bind_result_Inr_iff)

lemma run_input_ok:
  assumes "resolve_pod_query inp = Inr q" and "resolve_namespaces env inp ctx = Inr ns"
  shows "resolve_run_input env inp ctx = Inr \<lparr>rro_query = q, rro_namespaces = ns,
    rro_all_namespaces = rri_all_namespaces inp, rro_implicit_query = implicit_query_from_selector inp\<rparr>"
  using assms by (simp add: resolve_run_input_def)

lemma check_all_regex_ok:
  "check_all (compile_user_regex regex_new label) ps = Inr () \<Longrightarrow> p \<in> set ps \<Longrightarrow> \<exists>r. regex_new p = Inr r"
  by (auto simp: check_all_ok_iff compile_user_regex_ok_iff)

lemma parse_since_nonneg: "parse_since cx raw = Inr n \<Longrightarrow> 0 \<le> n"
  by (auto simp: parse_since_def Let_def split: sum.splits prod.splits option.splits if_splits)

lemma validate_parts:
  assumes "validate cx c = Inr ()"
  shows "\<exists>y. transpose_map (parse_since cx) (cli_since c) = Inr y"
    and "\<exists>y. transpose_map (parse_since_time (cx_parse_ts cx)) (cli_since_time c) = Inr y"
    and "\<exists>y. transpose_map (timestamp_zone_parse_arg (cx_tz cx)) (cli_timezone c) = Inr y"
    and "\<exists>y. transpose_map parse_exit_on_level (cli_exit_on_level c) = Inr y"
    and "\<exists>y. transpose_map (\<lambda>x. map_err parse_pod_condition_error_display (parse_pod_condition x)) (cli_condition c) = Inr y"
    and "\<exists>y. transpose_map (\<lambda>e. map_err jq_error_display (validate_filter (cx_jq cx) e)) (cli_json_query c) = Inr y"
    and "\<exists>q. resolved_pod_query c = Inr q" and "\<exists>ns. resolved_namespaces cx c = Inr ns"
    and "cli_buffer_size c \<noteq> 0" and "cli_max_log_requests c \<noteq> Some 0"
    and "\<not> (cli_condition c \<noteq> None \<and> cli_follow c \<and> cli_tail c \<noteq> Some 0)"
    and "\<not> (case cli_tail c of Some v \<Rightarrow> v < 0 | None \<Rightarrow> False)"
    and "p \<in> set (cli_include c @ cli_exclude c @ cli_exit_on c @ cli_highlight c @ cli_exclude_pod c
           @ cli_exclude_container c @ [cli_container c]) \<Longrightarrow> \<exists>r. cx_regex cx p = Inr r"
  using assms
  by (auto simp: validate_def check_seq_ok_iff check_opt_ok bind_result_Inr_iff check_all_ok_iff
      compile_user_regex_ok_iff)

lemma validated_config:
  assumes "validate cx c = Inr ()"
  shows "\<exists>cfg p. core_run_config_of cx c = Inr cfg \<and> from_run_config (cx_regex cx) (cx_jq cx) cfg = Inr p
    \<and> (\<forall>r. r \<notin> set (cfg_exclude_pod cfg @ cfg_exclude_container cfg @ [cfg_container cfg] @ cfg_highlight cfg)
          \<or> (\<exists>re. cx_regex cx r = Inr re))
    \<and> 1 \<le> fwd_buffer_size (cfg_fwd cfg) \<and> 1 \<le> fwd_max_log_requests (cfg_fwd cfg)
    \<and> 0 \<le> unwrap_or 0 (plr_tail (cfg_pod_log cfg)) \<and> 0 \<le> unwrap_or 0 (plr_since_seconds (cfg_pod_log cfg))
    \<and> (\<not> cfg_cursor_reconnect cfg \<or> plr_follow (cfg_pod_log cfg))
    \<and> (cfg_pod_condition cfg = None \<or> \<not> plr_follow (cfg_pod_log cfg) \<or> plr_tail (cfg_pod_log cfg) = Some 0)"
proof -
  note v = validate_parts [OF assms]
  from v(1-5,7,8) obtain since since_time zone level cond q ns
    where s: "transpose_map (parse_since cx) (cli_since c) = Inr since"
      "transpose_map (parse_since_time (cx_parse_ts cx)) (cli_since_time c) = Inr since_time"
      "(case cli_timezone c of Some z \<Rightarrow> timestamp_zone_parse_arg (cx_tz cx) z | None \<Rightarrow> Inr ZLocal) = Inr zone"
      "transpose_map parse_exit_on_level (cli_exit_on_level c) = Inr level"
      "transpose_map (\<lambda>x. map_err parse_pod_condition_error_display (parse_pod_condition x)) (cli_condition c) = Inr cond"
      "resolve_pod_query (run_resolution_input_of c) = Inr q"
      "resolve_namespaces (cx_env cx) (run_resolution_input_of c) (cli_context_selector c) = Inr ns"
    by (cases "cli_timezone c")
      (auto simp: resolved_pod_query_def resolved_namespaces_def transpose_map_def bind_result_Inr_iff)
  have since: "0 \<le> unwrap_or 0 since"
    using s(1) parse_since_nonneg [of cx] by (cases "cli_since c") (auto simp: transpose_map_def bind_result_Inr_iff)
  have cond: "cond = None \<longleftrightarrow> cli_condition c = None"
    using s(5) by (cases "cli_condition c") (auto simp: transpose_map_def bind_result_Inr_iff)
  obtain cfg where cfg: "core_run_config_of cx c = Inr cfg"
    and f: "cfg_exclude_pod cfg = cli_exclude_pod c" "cfg_exclude_container cfg = cli_exclude_container c"
      "cfg_container cfg = cli_container c" "cfg_highlight cfg = cli_highlight c"
      "cfg_include cfg = cli_include c" "cfg_exclude cfg = cli_exclude c" "cfg_exit_on cfg = cli_exit_on c"
      "cfg_json_query cfg = cli_json_query c" "cfg_pod_condition cfg = cond"
      "fwd_buffer_size (cfg_fwd cfg) = cli_buffer_size c"
      "fwd_max_log_requests (cfg_fwd cfg) = unwrap_or (if cli_follow c then 50 else 5) (cli_max_log_requests c)"
      "plr_tail (cfg_pod_log cfg) = cli_tail c" "plr_since_seconds (cfg_pod_log cfg) = since"
      "plr_follow (cfg_pod_log cfg) = cli_follow c" "cfg_cursor_reconnect cfg = (cli_cursor_reconnect c \<and> cli_follow c)"
    by (simp add: core_run_config_of_def s resolved_run_def run_input_ok [OF s(6,7)] Let_def)
  have "\<exists>p. from_run_config (cx_regex cx) (cx_jq cx) cfg = Inr p"
  proof (rule from_run_config_ok)
    show "\<exists>r. cx_regex cx p = Inr r" if "p \<in> set (cfg_include cfg @ cfg_exclude cfg @ cfg_exit_on cfg)" for p
      using that v(13) [of p] by (auto simp: f)
    show "\<exists>fl. validate_filter (cx_jq cx) expr = Inr fl" if "cfg_json_query cfg = Some expr" for expr
      using that v(6) by (auto simp: f transpose_map_def bind_result_Inr_iff)
  qed
  moreover have "r \<notin> set (cfg_exclude_pod cfg @ cfg_exclude_container cfg @ [cfg_container cfg] @ cfg_highlight cfg)
      \<or> (\<exists>re. cx_regex cx r = Inr re)" for r
    using v(13) [of r] by (auto simp: f)
  moreover have "1 \<le> unwrap_or (if cli_follow c then 50 else 5 :: nat) (cli_max_log_requests c)"
    using v(10) by (cases "cli_max_log_requests c") auto
  moreover have "0 \<le> unwrap_or 0 (cli_tail c)"
    using v(12) by (cases "cli_tail c") auto
  ultimately show ?thesis
    using cfg v(9,11) since cond by (intro exI [of _ cfg]) (auto simp: f)
qed

text \<open>
  C21: flags that pass validation never fail later: the configuration of the run is built, its
  pipeline compiles, and every regex the run still compiles (pod and container filters,
  highlights) is accepted by the regex library.  In that configuration the channel has room
  for a line, at least one log request is allowed, tail and since are not negative, cursor
  reconnect implies following, and a pod condition is used only one-shot or with an empty tail.
\<close>

theorem validated_config_ok:
  assumes "validate cx c = Inr ()"
  shows "\<exists>cfg p. core_run_config_of cx c = Inr cfg \<and> from_run_config (cx_regex cx) (cx_jq cx) cfg = Inr p
    \<and> (\<forall>r. r \<notin> set (cfg_exclude_pod cfg @ cfg_exclude_container cfg @ [cfg_container cfg] @ cfg_highlight cfg)
          \<or> (\<exists>re. cx_regex cx r = Inr re))
    \<and> 1 \<le> fwd_buffer_size (cfg_fwd cfg) \<and> 1 \<le> fwd_max_log_requests (cfg_fwd cfg)
    \<and> 0 \<le> unwrap_or 0 (plr_tail (cfg_pod_log cfg)) \<and> 0 \<le> unwrap_or 0 (plr_since_seconds (cfg_pod_log cfg))
    \<and> (\<not> cfg_cursor_reconnect cfg \<or> plr_follow (cfg_pod_log cfg))
    \<and> (cfg_pod_condition cfg = None \<or> \<not> plr_follow (cfg_pod_log cfg) \<or> plr_tail (cfg_pod_log cfg) = Some 0)"
  by (rule validated_config [OF assms])

definition example_cli_ctx :: cli_ctx where
  "example_cli_ctx =
     \<lparr>cx_regex = (\<lambda>p. Inr (\<lambda>s. True)), cx_jq = \<lparr>jc_load = Inl, jc_compile = Inl\<rparr>,
      cx_parse_ts = (\<lambda>_. None), cx_parse_duration = Inl, cx_tz = (\<lambda>_. None),
      cx_env = \<lparr>pe_kubeconfig_var = None, pe_home_var = None, pe_read = Inl\<rparr>, cx_stdout_tty = True\<rparr>"

definition example_cli :: cli where
  "example_cli = cli_defaults\<lparr>cli_query := Some ''web'', cli_namespaces := [''default'']\<rparr>"

lemma example_cli_valid: "validate example_cli_ctx example_cli = Inr ()"
proof -
  have "deduped_explicit_namespaces [''default''] = [''default'']" by code_simp
  then show ?thesis
    by (simp add: example_cli_ctx_def example_cli_def validate_def check_seq_ok_iff check_opt_def cli_defaults_def
        compile_user_regex_def max_user_regex_pattern_len_def resolved_pod_query_def resolve_pod_query_def
        run_resolution_input_of_def resolved_namespaces_def resolve_namespaces_def cli_follow_def
        del: check_seq.simps)
qed

theorem validated_config_ok_witness:
  "\<exists>cfg. core_run_config_of example_cli_ctx example_cli = Inr cfg \<and> 1 \<le> fwd_max_log_requests (cfg_fwd cfg)"
  using validated_config_ok [OF example_cli_valid] by blast

section \<open>Exit codes (\<open>main.rs\<close>)\<close>

datatype shutdown_reason = ShutdownNone | ShutdownSigint | ShutdownSigterm

datatype unix_signal = Sigterm | Sigint

text \<open>The listener waits for the first signal, if any comes, records it and cancels the root token.\<close>

definition listen_unix_shutdown :: "unix_signal list \<Rightarrow> shutdown_reason \<times> bool" where
  "listen_unix_shutdown signals =
     (case signals of
        [] \<Rightarrow> (ShutdownNone, False)
      | Sigterm # _ \<Rightarrow> (ShutdownSigterm, True)
      | Sigint # _ \<Rightarrow> (ShutdownSigint, True))"

definition exit_after_ok :: "shutdown_reason \<Rightarrow> nat" where
  "exit_after_ok reason =
     (case reason of ShutdownSigint \<Rightarrow> 130 | ShutdownSigterm \<Rightarrow> 143 | ShutdownNone \<Rightarrow> 0)"

text \<open>
  \<open>report.rs\<close>: a failure prints its message and a newline to standard error, as miette's reports
  of a message are displayed, and ends the process with its code.
\<close>

type_synonym process_end = "string \<times> nat"

definition fail_with_code :: "string \<Rightarrow> nat \<Rightarrow> process_end" where
  "fail_with_code report code = (report @ [CHR 0x0A], code)"

definition fail :: "string \<Rightarrow> process_end" where
  "fail report = fail_with_code report 1"

definition fail_msg :: "string \<Rightarrow> process_end" where
  "fail_msg msg = fail msg"

definition fail_run :: "run_error \<Rightarrow> process_end" where
  "fail_run err = fail (run_error_display err)"

text \<open>\<open>main\<close>: what it prints to standard error itself, and the exit code.\<close>

definition main_end ::
  "cli_ctx \<Rightarrow> cli \<Rightarrow> string + unit \<Rightarrow> (core_run_config \<Rightarrow> run_error + run_outcome) \<Rightarrow> unix_signal list \<Rightarrow> process_end" where
  "main_end cx c registered run signals =
     (case validate cx c of
        Inl msg \<Rightarrow> fail_msg msg
      | Inr _ \<Rightarrow>
     (case registered of
        Inl e \<Rightarrow> fail_msg (''failed to register signal handlers: '' @ e)
      | Inr _ \<Rightarrow>
     (case core_run_config_of cx c of
        Inl msg \<Rightarrow> fail_msg msg
      | Inr cfg \<Rightarrow>
     (case run cfg of
        Inl e \<Rightarrow> fail_run e
      | Inr outcome \<Rightarrow>
          if ro_had_source_errors outcome then fail_with_code ''one or more log sources reported errors'' 2
          else ([], exit_after_ok (fst (listen_unix_shutdown signals)))))))"

text \<open>
  The whole process: \<open>Cli::parse\<close> gives the flags, or ends the process itself with its own message
  and exit code, which are clap's.
\<close>

definition main_process ::
  "cli_ctx \<Rightarrow> process_end + cli \<Rightarrow> string + unit \<Rightarrow> (core_run_config \<Rightarrow> run_error + run_outcome) \<Rightarrow>
     unix_signal list \<Rightarrow> process_end" where
  "main_process cx parsed registered run signals =
     (case parsed of Inl clap_exit \<Rightarrow> clap_exit | Inr c \<Rightarrow> main_end cx c registered run signals)"

lemmas report_defs = fail_with_code_def fail_def fail_msg_def fail_run_def

text \<open>
  C30: the exit code tells what happened.  If \<open>Cli::parse\<close> ends the process, it is clap's (2 for
  arguments it rejects, such as conflicting flags or a \<open>--stats-interval\<close> that its parser refuses, 0
  for \<open>--help\<close> and \<open>--version\<close>).  Once clap has accepted the arguments it is 0 only after a clean
  run without a signal, 2 exactly when the run ended with source errors, 130 and 143 only after a
  clean run stopped by SIGINT or SIGTERM, and 1 for flags that \<open>validate\<close> or the building of the
  configuration rejects, for signal handlers that cannot be registered and for every failed run;
  and what \<open>main\<close> prints is empty exactly after a clean run, and the message of the error, on a
  line, after a failed one.
\<close>

theorem exit_code_meaning:
  "case parsed of Inl clap_exit \<Rightarrow> main_process cx parsed registered run signals = clap_exit | Inr c \<Rightarrow>
   let (err, code) = main_process cx parsed registered run signals;
       ran = (if (\<exists>u. validate cx c = Inr u) \<and> (\<exists>u. registered = Inr u)
              then (case core_run_config_of cx c of Inr cfg \<Rightarrow> Some (run cfg) | Inl _ \<Rightarrow> None) else None)
   in (code = 2 \<longleftrightarrow> (\<exists>out. ran = Some (Inr out) \<and> ro_had_source_errors out))
      \<and> (code = 1 \<longleftrightarrow> ran = None \<or> (\<exists>e. ran = Some (Inl e)))
      \<and> (code = 0 \<longleftrightarrow> (\<exists>out. ran = Some (Inr out) \<and> \<not> ro_had_source_errors out) \<and> signals = [])
      \<and> (code = 130 \<longleftrightarrow> (\<exists>out. ran = Some (Inr out) \<and> \<not> ro_had_source_errors out)
            \<and> (\<exists>rest. signals = Sigint # rest))
      \<and> (code = 143 \<longleftrightarrow> (\<exists>out. ran = Some (Inr out) \<and> \<not> ro_had_source_errors out)
            \<and> (\<exists>rest. signals = Sigterm # rest))
      \<and> (err = [] \<longleftrightarrow> (\<exists>out. ran = Some (Inr out) \<and> \<not> ro_had_source_errors out))
      \<and> (case ran of Some (Inl e) \<Rightarrow> err = run_error_display e @ [CHR 0x0A] | _ \<Rightarrow> True)"
proof -
  have e: "exit_after_ok (fst (listen_unix_shutdown signals)) =
      (case signals of [] \<Rightarrow> 0 | Sigterm # _ \<Rightarrow> 143 | Sigint # _ \<Rightarrow> 130)"
    by (auto simp: exit_after_ok_def listen_unix_shutdown_def split: list.split unix_signal.split)
  have sg: "signals = [] \<or> (\<exists>rest. signals = Sigint # rest) \<or> (\<exists>rest. signals = Sigterm # rest)"
    by (cases signals; cases "hd signals") auto
  show ?thesis
  proof (cases parsed)
    case (Inr c)
    then show ?thesis
      using sg
      by (cases "validate cx c"; cases registered; cases "core_run_config_of cx c")
        (auto simp: main_process_def main_end_def report_defs e Let_def split: sum.splits)
  qed (simp add: main_process_def)
qed

end
