(* ===== verification/Render.thy ===== *)
theory Render
  imports Config
begin

text \<open>
  Rendering (\<open>render\<close>): the line formatters (\<open>default_renderer\<close>, \<open>raw_renderer\<close>,
  \<open>json_renderer\<close>, \<open>ext_json_renderer\<close>), the highlighting of matches (\<open>highlight.rs\<close>), the
  choice of the formatter (\<open>setup.rs\<close>) and the task that writes the lines (\<open>render/mod.rs\<close>).
  Parameters: chrono's formatting, the colour codes of owo-colors, serde_json's printers and
  parser, and the compiled highlight regex, which is the list of matches it finds.
\<close>

section \<open>Third-party functions\<close>

record chrono_lib =
  ch_strftime :: "string \<Rightarrow> timestamp_zone \<Rightarrow> timestamp \<Rightarrow> string"
  ch_rfc3339_nanos :: "timestamp_zone \<Rightarrow> timestamp \<Rightarrow> string"
  ch_rfc3339 :: "timestamp \<Rightarrow> string"

record color_lib =
  co_truecolor :: "nat \<times> nat \<times> nat \<Rightarrow> string \<Rightarrow> string"
  co_red_bold :: "string \<Rightarrow> string"

record render_lib =
  rl_chrono :: chrono_lib
  rl_color :: color_lib
  rl_to_string :: "json \<Rightarrow> string"
  rl_to_string_pretty :: "json \<Rightarrow> string"
  rl_from_str :: "string \<Rightarrow> json option"
  rl_show_val :: "jval \<Rightarrow> string"

text \<open>A formatter appends to a buffer (\<open>format_into\<close>); its errors are panics of the printers,
  which do not fail on the values it builds.\<close>

type_synonym line_formatter = "log_event \<Rightarrow> string \<Rightarrow> string"

definition format_line :: "line_formatter \<Rightarrow> log_event \<Rightarrow> string" where
  "format_line fmt ev = fmt ev []"

abbreviation newline :: char where
  "newline \<equiv> char_of (10::nat)"

section \<open>Default and raw lines\<close>

definition palette :: "(nat \<times> nat \<times> nat) list" where
  "palette =
     [(255, 99, 71), (60, 179, 113), (100, 149, 237), (218, 112, 214),
      (255, 165, 0), (123, 104, 238), (32, 178, 170), (255, 192, 203)]"

definition show_int :: "int \<Rightarrow> string" where
  "show_int i = (if i < 0 then CHR ''-'' # show_nat (nat (- i)) else show_nat (nat i))"

text \<open>The prefix, and whether there is one.\<close>

definition push_wall_prefix ::
  "chrono_lib \<Rightarrow> string \<Rightarrow> timestamp \<Rightarrow> timestamp_style \<Rightarrow> timestamp_zone \<Rightarrow> string \<times> bool" where
  "push_wall_prefix lib buf dt style zone =
     (case style of
        TsOmit \<Rightarrow> (buf, False)
      | TsEpochSeconds \<Rightarrow> (buf @ show_int (dt div 1000000000), True)
      | TsRfc3339 \<Rightarrow>
          (case zone of
             ZUtc \<Rightarrow> (buf @ ch_strftime lib ''%Y-%m-%dT%H:%M:%S%.9f+00:00'' ZUtc dt, True)
           | ZLocal \<Rightarrow> (buf @ ch_rfc3339_nanos lib ZLocal dt, True)
           | ZIana tz \<Rightarrow> (buf @ ch_rfc3339_nanos lib (ZIana tz) dt, True))
      | TsSternShort \<Rightarrow> (buf @ ch_strftime lib ''%m-%d %H:%M:%S'' zone dt, True))"

definition push_colored :: "color_lib \<Rightarrow> string \<Rightarrow> string \<Rightarrow> u8 option \<Rightarrow> bool \<Rightarrow> string" where
  "push_colored lib buf text idx color_enabled =
     (case idx of
        Some i \<Rightarrow>
          if color_enabled
          then buf @ co_truecolor lib (palette ! (unat i mod length palette)) text
          else buf @ text
      | None \<Rightarrow> buf @ text)"

record default_line_formatter =
  df_timestamp_style :: timestamp_style
  df_timestamp_zone :: timestamp_zone
  df_color_enabled :: bool
  df_pod_colors :: bool
  df_container_colors :: bool

definition default_format_into :: "render_lib \<Rightarrow> default_line_formatter \<Rightarrow> line_formatter" where
  "default_format_into lib f event line =
     (let line = (case push_wall_prefix (rl_chrono lib) line (ev_timestamp event)
                         (df_timestamp_style f) (df_timestamp_zone f) of
                    (line, True) \<Rightarrow> line @ '' '' | (line, False) \<Rightarrow> line);
          line = push_colored (rl_color lib) line (sm_pod (ev_source event))
                   (if df_pod_colors f then ev_palette_index event else None) (df_color_enabled f);
          line = line @ ''/'';
          line = push_colored (rl_color lib) line (sm_container (ev_source event))
                   (if df_container_colors f then ev_container_palette_index event else None)
                   (df_color_enabled f)
      in line @ '' | '' @ ev_message event @ [newline])"

definition raw_format_into :: line_formatter where
  "raw_format_into event buf = buf @ ev_message event @ [newline]"

section \<open>JSON lines\<close>

text \<open>The fields of a serialised struct in their order, without the skipped ones.\<close>

definition opt_field :: "string \<Rightarrow> json option \<Rightarrow> (string \<times> json) list" where
  "opt_field name v = (case v of None \<Rightarrow> [] | Some x \<Rightarrow> [(name, x)])"

definition json_row :: "render_lib \<Rightarrow> log_event \<Rightarrow> (string \<times> json) list" where
  "json_row lib event =
     [(''pod'', JString (sm_pod (ev_source event))),
      (''container'', JString (sm_container (ev_source event))),
      (''namespace'', JString (sm_namespace (ev_source event))),
      (''timestamp'', JString (ch_strftime (rl_chrono lib) ''%Y-%m-%dT%H:%M:%S%.f+00:00'' ZUtc (ev_timestamp event))),
      (''message'', JString (ev_message event))]
     @ opt_field ''level'' (map_option (\<lambda>l. JString (level_as_str l)) (ev_level event))"

definition json_format_into :: "render_lib \<Rightarrow> line_formatter" where
  "json_format_into lib event buf = buf @ rl_to_string lib (JObject (json_row lib event)) @ [newline]"

definition trim_end_newlines :: "string \<Rightarrow> string" where
  "trim_end_newlines s = rev (dropWhile (\<lambda>c. c = newline) (rev s))"

definition encode_message :: "render_lib \<Rightarrow> string \<Rightarrow> parsed_json option \<Rightarrow> json" where
  "encode_message lib message structured =
     (case structured of
        Some parsed \<Rightarrow> to_serde_value (rl_from_str lib) (rl_show_val lib) parsed
      | None \<Rightarrow>
          (let trimmed = trim_end_newlines message in
           case rl_from_str lib trimmed of Some v \<Rightarrow> v | None \<Rightarrow> JString trimmed))"

definition build_object :: "render_lib \<Rightarrow> log_event \<Rightarrow> bool \<Rightarrow> (string \<times> json) list" where
  "build_object lib event all_namespaces =
     [(''container'', JString (sm_container (ev_source event)))]
     @ opt_field ''labels''
         (if sm_labels (ev_source event) \<noteq> []
          then Some (JObject (map (\<lambda>(k, v). (k, JString v)) (sm_labels (ev_source event)))) else None)
     @ opt_field ''level'' (map_option (\<lambda>l. JString (level_as_str l)) (ev_level event))
     @ [(''message'', encode_message lib (ev_message event) (ev_structured event))]
     @ opt_field ''namespace''
         (if all_namespaces then Some (JString (sm_namespace (ev_source event))) else None)
     @ opt_field ''node'' (map_option JString (sm_node (ev_source event)))
     @ [(''pod'', JString (sm_pod (ev_source event))),
        (''timestamp'', JString (ch_rfc3339 (rl_chrono lib) (ev_timestamp event)))]"

record ext_json_line_formatter =
  ef_all_namespaces :: bool
  ef_pretty :: bool

definition ext_json_format_into :: "render_lib \<Rightarrow> ext_json_line_formatter \<Rightarrow> line_formatter" where
  "ext_json_format_into lib f event buf =
     (let obj = JObject (build_object lib event (ef_all_namespaces f)) in
      (if ef_pretty f then buf @ rl_to_string_pretty lib obj else buf @ rl_to_string lib obj) @ [newline])"

section \<open>Highlighting\<close>

text \<open>A compiled regex as \<open>find_iter\<close>: the matches in a text, as pairs of byte offsets.\<close>

type_synonym match_finder = "string \<Rightarrow> (nat \<times> nat) list"

fun highlight_from :: "(string \<Rightarrow> string) \<Rightarrow> string \<Rightarrow> nat \<Rightarrow> (nat \<times> nat) list \<Rightarrow> string" where
  "highlight_from style text pos [] = drop pos text"
| "highlight_from style text pos ((m_start, m_end) # ms) =
     take (m_start - pos) (drop pos text) @ style (take (m_end - m_start) (drop m_start text))
     @ highlight_from style text m_end ms"

definition highlight_default_line :: "(string \<Rightarrow> string) \<Rightarrow> match_finder \<Rightarrow> string \<Rightarrow> string option" where
  "highlight_default_line style re text =
     (case re text of [] \<Rightarrow> None | ms \<Rightarrow> Some (highlight_from style text 0 ms))"

definition stern_highlight_format_into ::
  "render_lib \<Rightarrow> line_formatter \<Rightarrow> match_finder \<Rightarrow> line_formatter" where
  "stern_highlight_format_into lib inner re event buf =
     (let buf = inner event buf in
      case highlight_default_line (co_red_bold (rl_color lib)) re buf of
        Some highlighted \<Rightarrow> highlighted | None \<Rightarrow> buf)"

definition highlight_branches :: "string list \<Rightarrow> string list \<Rightarrow> string list" where
  "highlight_branches include_pats highlights =
     filter (\<lambda>t. t \<noteq> []) (map trim include_pats) @ filter (\<lambda>t. t \<noteq> []) (map trim highlights)"

definition compile_stern_highlight_regex ::
  "(string \<Rightarrow> string + match_finder) \<Rightarrow> string list \<Rightarrow> string list \<Rightarrow> string + match_finder option" where
  "compile_stern_highlight_regex regex_new include_pats highlights =
     (let branches = highlight_branches include_pats highlights in
      if branches = [] then Inr None
      else
        (let branches = sort_key (\<lambda>b. - int (length b)) branches;
             merged = join ''|'' branches
         in bind_result (regex_new (''('' @ merged @ '')'')) (\<lambda>re. Inr (Some re))))"

section \<open>Choosing the formatter (\<open>setup.rs\<close>)\<close>

definition line_formatter_of :: "render_lib \<Rightarrow> formatter_choice \<Rightarrow> line_formatter" where
  "line_formatter_of lib choice =
     (case choice of
        FmtDefault style zone color_enabled pod_colors container_colors \<Rightarrow>
          default_format_into lib
            \<lparr>df_timestamp_style = style, df_timestamp_zone = zone, df_color_enabled = color_enabled,
             df_pod_colors = pod_colors, df_container_colors = container_colors\<rparr>
      | FmtJson \<Rightarrow> json_format_into lib
      | FmtExtJson all_ns \<Rightarrow> ext_json_format_into lib \<lparr>ef_all_namespaces = all_ns, ef_pretty = False\<rparr>
      | FmtPpExtJson all_ns \<Rightarrow> ext_json_format_into lib \<lparr>ef_all_namespaces = all_ns, ef_pretty = True\<rparr>
      | FmtRaw \<Rightarrow> raw_format_into)"

definition wrap_formatter_with_stern_highlight ::
  "render_lib \<Rightarrow> (string \<Rightarrow> string + match_finder) \<Rightarrow> formatter_choice \<Rightarrow> string list \<Rightarrow> string list \<Rightarrow>
     line_formatter \<Rightarrow> string + line_formatter" where
  "wrap_formatter_with_stern_highlight lib regex_new choice include_pats highlight inner =
     (case choice of
        FmtDefault _ _ _ _ _ \<Rightarrow>
          bind_result (compile_stern_highlight_regex regex_new include_pats highlight) (\<lambda>re.
            Inr (case re of Some re \<Rightarrow> stern_highlight_format_into lib inner re | None \<Rightarrow> inner))
      | _ \<Rightarrow> Inr inner)"

definition build_line_formatter ::
  "render_lib \<Rightarrow> (string \<Rightarrow> string + match_finder) \<Rightarrow> formatter_choice \<Rightarrow> string list \<Rightarrow> string list \<Rightarrow>
     string + line_formatter" where
  "build_line_formatter lib regex_new choice include_pats highlight =
     wrap_formatter_with_stern_highlight lib regex_new choice include_pats highlight (line_formatter_of lib choice)"

section \<open>The render task (\<open>render/mod.rs\<close>)\<close>

datatype render_command = RLine log_event | RFlush | RShutdown

definition render_recv_batch :: nat where
  "render_recv_batch = 256"

text \<open>
  What the task has put into its \<open>BufWriter\<close>, and how much of it a flush has passed on for
  certain.  Every command comes with the I/O error its write or flush meets, if any.
\<close>

record render_state =
  rt_out :: string
  rt_flushed :: nat

definition render_init :: render_state where
  "render_init = \<lparr>rt_out = [], rt_flushed = 0\<rparr>"

definition flush_out :: "render_state \<Rightarrow> render_state" where
  "flush_out st = st\<lparr>rt_flushed := length (rt_out st)\<rparr>"

text \<open>One batch: an I/O error, the return at a shutdown (\<open>True\<close>), or the end of the batch.\<close>

fun render_batch ::
  "line_formatter \<Rightarrow> (render_command \<times> string option) list \<Rightarrow> render_state \<Rightarrow>
     render_state \<times> (string + bool)" where
  "render_batch fmt [] st = (st, Inr False)"
| "render_batch fmt ((cmd, io) # cmds) st =
     (case io of
        Some e \<Rightarrow> (st, Inl e)
      | None \<Rightarrow>
          (case cmd of
             RLine ev \<Rightarrow> render_batch fmt cmds (st\<lparr>rt_out := rt_out st @ fmt ev []\<rparr>)
           | RFlush \<Rightarrow> render_batch fmt cmds (flush_out st)
           | RShutdown \<Rightarrow> (flush_out st, Inr True)))"

text \<open>The task over the batches it receives; the channel is closed after the last one, and
  \<open>last_io\<close> is the error of the flush that follows.\<close>

fun render_task ::
  "line_formatter \<Rightarrow> string option \<Rightarrow> (render_command \<times> string option) list list \<Rightarrow> render_state \<Rightarrow>
     render_state \<times> (string + unit)" where
  "render_task fmt last_io [] st =
     (case last_io of Some e \<Rightarrow> (st, Inl e) | None \<Rightarrow> (flush_out st, Inr ()))"
| "render_task fmt last_io (batch # batches) st =
     (case render_batch fmt batch st of
        (st', Inl e) \<Rightarrow> (st', Inl e)
      | (st', Inr True) \<Rightarrow> (st', Inr ())
      | (st', Inr False) \<Rightarrow> render_task fmt last_io batches st')"

section \<open>Properties of the formatters\<close>

lemma push_colored_append:
  "push_colored lib buf text idx enabled = buf @ push_colored lib [] text idx enabled"
  by (simp add: push_colored_def split: option.split)

lemma push_colored_plain: "push_colored lib buf text None enabled = buf @ text"
  by (simp add: push_colored_def)

lemma push_wall_prefix_append:
  "push_wall_prefix lib buf dt style zone
     = (buf @ fst (push_wall_prefix lib [] dt style zone), style \<noteq> TsOmit)"
  by (simp add: push_wall_prefix_def split: timestamp_style.split timestamp_zone.split)

text \<open>The text before pod, container and message of a default line.\<close>

definition wall_prefix :: "render_lib \<Rightarrow> default_line_formatter \<Rightarrow> timestamp \<Rightarrow> string" where
  "wall_prefix lib f dt =
     fst (push_wall_prefix (rl_chrono lib) [] dt (df_timestamp_style f) (df_timestamp_zone f))
     @ (if df_timestamp_style f = TsOmit then [] else '' '')"

lemma default_format_into_append:
  "default_format_into lib f ev buf =
     buf @ wall_prefix lib f (ev_timestamp ev)
     @ push_colored (rl_color lib) [] (sm_pod (ev_source ev))
         (if df_pod_colors f then ev_palette_index ev else None) (df_color_enabled f)
     @ ''/''
     @ push_colored (rl_color lib) [] (sm_container (ev_source ev))
         (if df_container_colors f then ev_container_palette_index ev else None) (df_color_enabled f)
     @ '' | '' @ ev_message ev @ [newline]"
  unfolding default_format_into_def Let_def wall_prefix_def
  by (subst push_wall_prefix_append, subst (1 2) push_colored_append) simp

text \<open>Every formatter appends to its buffer, whatever the choice, and ends with a newline.\<close>

lemma line_formatter_appends:
  "line_formatter_of lib choice ev buf = buf @ line_formatter_of lib choice ev []
   \<and> (\<exists>text. line_formatter_of lib choice ev [] = text @ [newline])"
  by (cases choice)
    (auto simp: line_formatter_of_def default_format_into_append json_format_into_def
      ext_json_format_into_def raw_format_into_def Let_def)

text \<open>
  C38: a line of the default format without colours can be read back: two events that give the
  same line under the same timestamp prefix have the same pod, container and message, as long
  as pod names have no slash and container names no space (as Kubernetes guarantees).
\<close>

theorem default_line_injective:
  assumes "format_line (default_format_into lib f) ev = format_line (default_format_into lib f) ev'"
    and "\<not> df_color_enabled f" and "ev_timestamp ev = ev_timestamp ev'"
    and "CHR ''/'' \<notin> set (sm_pod (ev_source ev)) \<union> set (sm_pod (ev_source ev'))"
    and "CHR '' '' \<notin> set (sm_container (ev_source ev)) \<union> set (sm_container (ev_source ev'))"
  shows "sm_pod (ev_source ev) = sm_pod (ev_source ev')
    \<and> sm_container (ev_source ev) = sm_container (ev_source ev')
    \<and> ev_message ev = ev_message ev'"
proof -
  have once: "split_once c (a @ c # b) = Some (a, b)" if "c \<notin> set a" for c :: char and a b
    using that by (simp add: split_once_Some)
  have plain: "push_colored (rl_color lib) [] t idx (df_color_enabled f) = t" for t idx
    using assms(2) by (simp add: push_colored_def split: option.split)
  let ?rest = "\<lambda>e. sm_container (ev_source e) @ CHR '' '' # ''| '' @ ev_message e @ [newline]"
  have "sm_pod (ev_source ev) @ CHR ''/'' # ?rest ev = sm_pod (ev_source ev') @ CHR ''/'' # ?rest ev'"
    using assms(1,3) by (simp add: format_line_def default_format_into_append plain)
  then have pod: "sm_pod (ev_source ev) = sm_pod (ev_source ev')" and "?rest ev = ?rest ev'"
    using once [of "CHR ''/''"] assms(4) by (metis UnCI option.inject prod.inject)+
  then have "sm_container (ev_source ev) = sm_container (ev_source ev')
    \<and> ''| '' @ ev_message ev @ [newline] = ''| '' @ ev_message ev' @ [newline]"
    using once [of "CHR '' ''"] assms(5) by (metis UnCI option.inject prod.inject)
  with pod show ?thesis by simp
qed

definition ndjson_row :: "render_lib \<Rightarrow> formatter_choice \<Rightarrow> log_event \<Rightarrow> json" where
  "ndjson_row lib choice ev =
     (case choice of FmtExtJson all_ns \<Rightarrow> JObject (build_object lib ev all_ns) | _ \<Rightarrow> JObject (json_row lib ev))"

lemma build_object_sorted: "sorted_wrt (<) (map fst (build_object lib ev all_ns))"
  by (cases "ev_level ev"; cases "sm_node (ev_source ev)"; cases all_ns; cases "sm_labels (ev_source ev) = []")
    (simp_all add: build_object_def opt_field_def)

lemma split_on_lines:
  assumes "\<And>r. r \<in> set rows \<Longrightarrow> c \<notin> set r"
  shows "split_on c (concat (map (\<lambda>r. r @ [c]) rows)) = rows @ [[]]"
  using assms by (induction rows) (auto simp: split_on_append_sep)

text \<open>
  C39: the rows of the NDJSON formats can be separated again: as long as serde's compact printer
  writes no newline (it escapes them), splitting what the formatter has written for a list of
  events at newlines gives back one row per event, in order, and the keys of every \<open>extjson\<close>
  row are in strictly increasing order.
\<close>

theorem ndjson_rows_separable:
  assumes "\<And>v. newline \<notin> set (rl_to_string lib v)"
    and "choice = FmtJson \<or> choice = FmtExtJson all_ns"
  shows "split_on newline (concat (map (format_line (line_formatter_of lib choice)) evs))
      = map (\<lambda>ev. rl_to_string lib (ndjson_row lib choice ev)) evs @ [[]]
    \<and> sorted_wrt (<) (map fst (build_object lib ev all_ns))"
proof -
  let ?rows = "map (\<lambda>ev. rl_to_string lib (ndjson_row lib choice ev)) evs"
  have "format_line (line_formatter_of lib choice) = (\<lambda>ev. rl_to_string lib (ndjson_row lib choice ev) @ [newline])"
    using assms(2)
    by (auto simp: format_line_def line_formatter_of_def json_format_into_def ext_json_format_into_def ndjson_row_def)
  then have "map (format_line (line_formatter_of lib choice)) evs = map (\<lambda>r. r @ [newline]) ?rows" by simp
  moreover have "split_on newline (concat (map (\<lambda>r. r @ [newline]) ?rows)) = ?rows @ [[]]"
    by (rule split_on_lines) (use assms(1) in auto)
  ultimately show ?thesis using build_object_sorted by metis
qed

section \<open>Highlighting only wraps\<close>

text \<open>What \<open>find_iter\<close> promises: the matches are in order, do not overlap and lie in the text.\<close>

fun matches_from :: "nat \<Rightarrow> nat \<Rightarrow> (nat \<times> nat) list \<Rightarrow> bool" where
  "matches_from pos len [] \<longleftrightarrow> pos \<le> len"
| "matches_from pos len ((m_start, m_end) # ms) \<longleftrightarrow>
     pos \<le> m_start \<and> m_start \<le> m_end \<and> matches_from m_end len ms"

lemma matches_from_le: "matches_from pos len ms \<Longrightarrow> pos \<le> len"
  by (induction pos len ms rule: matches_from.induct) auto

lemma highlight_from_pieces:
  assumes "matches_from pos (length line) ms"
  shows "\<exists>gaps. length gaps = length ms \<and> (\<exists>rest.
      highlight_from style line pos ms
        = concat (map2 (\<lambda>gap (s, e). gap @ style (take (e - s) (drop s line))) gaps ms) @ rest
    \<and> drop pos line = concat (map2 (\<lambda>gap (s, e). gap @ take (e - s) (drop s line)) gaps ms) @ rest)"
  using assms
proof (induction style line pos ms rule: highlight_from.induct)
  case (2 style line pos s e ms)
  then obtain gaps rest where IH: "length gaps = length ms"
    "highlight_from style line e ms
        = concat (map2 (\<lambda>gap (s, e). gap @ style (take (e - s) (drop s line))) gaps ms) @ rest"
    "drop e line = concat (map2 (\<lambda>gap (s, e). gap @ take (e - s) (drop s line)) gaps ms) @ rest"
    by auto
  let ?gap = "take (s - pos) (drop pos line)"
  have le: "pos \<le> s" "s \<le> e" using "2.prems" by auto
  have "drop pos line = ?gap @ drop s line"
    using append_take_drop_id [of "s - pos" "drop pos line"] le by simp
  also have "drop s line = take (e - s) (drop s line) @ drop e line"
    using append_take_drop_id [of "e - s" "drop s line"] le by simp
  finally have "drop pos line = ?gap @ take (e - s) (drop s line) @ drop e line" .
  with IH show ?case
    by (intro exI [of _ "?gap # gaps"] conjI exI [of _ rest]) simp_all
qed simp

text \<open>
  C37: highlighting only wraps: for every list of matches that are in order, do not overlap and
  lie in the line, the highlighted line is the line itself with each match, and nothing else,
  put through the style; without a match the line is left alone.
\<close>

theorem highlight_only_wraps:
  assumes "matches_from 0 (length line) (re line)"
  shows "case highlight_default_line style re line of
      None \<Rightarrow> re line = []
    | Some out \<Rightarrow> \<exists>gaps rest. length gaps = length (re line)
        \<and> out = concat (map2 (\<lambda>gap (s, e). gap @ style (take (e - s) (drop s line))) gaps (re line)) @ rest
        \<and> line = concat (map2 (\<lambda>gap (s, e). gap @ take (e - s) (drop s line)) gaps (re line)) @ rest"
  using highlight_from_pieces [OF assms, of style]
  by (auto simp: highlight_default_line_def split: list.split)

text \<open>The alternatives of the highlight regex: all non-blank patterns, longer ones first, and among
  patterns of one length in the order given.\<close>

lemma highlight_alternatives:
  assumes "highlight_branches incl highs \<noteq> []"
  shows "\<exists>bs. compile_stern_highlight_regex regex_new incl highs
      = map_sum id Some (regex_new (''('' @ join ''|'' bs @ '')''))
    \<and> sorted_wrt (\<lambda>a b. length b \<le> length a) bs
    \<and> (\<forall>n. filter (\<lambda>b. length b = n) bs = filter (\<lambda>b. length b = n) (highlight_branches incl highs))"
proof (intro exI conjI allI)
  let ?bs = "sort_key (\<lambda>b. - int (length b)) (highlight_branches incl highs)"
  show "compile_stern_highlight_regex regex_new incl highs = map_sum id Some (regex_new (''('' @ join ''|'' ?bs @ '')''))"
    using assms by (auto simp: compile_stern_highlight_regex_def Let_def bind_result_def split: sum.split)
  have "sorted (map (\<lambda>b. - int (length b)) ?bs)" by (rule sorted_sort_key)
  then show "sorted_wrt (\<lambda>a b. length b \<le> length a) ?bs"
    by (simp add: sorted_map)
  show "filter (\<lambda>b. length b = n) ?bs = filter (\<lambda>b. length b = n) (highlight_branches incl highs)" for n
    using sort_key_stable [of "\<lambda>b. - int (length b)" "- int n" "highlight_branches incl highs"] by simp
qed

section \<open>The task writes every line once\<close>

lemma render_batch_append:
  "render_batch fmt (xs @ ys) st =
     (case render_batch fmt xs st of
        (st', Inr False) \<Rightarrow> render_batch fmt ys st'
      | r \<Rightarrow> r)"
  by (induction fmt xs st rule: render_batch.induct) (auto split: option.split render_command.split)

lemma render_task_concat: "render_task fmt last_io batches st = render_task fmt last_io [concat batches] st"
proof (induction fmt last_io batches st rule: render_task.induct)
  case (2 fmt last_io batch batches st)
  then show ?case
    by (auto simp: render_batch_append split: sum.split bool.split prod.split)
qed simp

definition rendered_lines :: "(render_command \<times> string option) list \<Rightarrow> log_event list" where
  "rendered_lines cmds = List.map_filter (\<lambda>(cmd, io). case cmd of RLine ev \<Rightarrow> Some ev | _ \<Rightarrow> None)
     (takeWhile (\<lambda>(cmd, io). cmd \<noteq> RShutdown \<and> io = None) cmds)"

text \<open>The command that ends the task: the first shutdown, or the first whose I/O fails.\<close>

definition first_stop :: "(render_command \<times> string option) list \<Rightarrow> (render_command \<times> string option) option" where
  "first_stop cmds = find (\<lambda>(cmd, io). cmd = RShutdown \<or> io \<noteq> None) cmds"

lemma stop_simps [simp]:
  "first_stop [] = None" "rendered_lines [] = []"
  "first_stop ((cmd, Some e) # cmds) = Some (cmd, Some e)" "rendered_lines ((cmd, Some e) # cmds) = []"
  "first_stop ((RShutdown, None) # cmds) = Some (RShutdown, None)" "rendered_lines ((RShutdown, None) # cmds) = []"
  "first_stop ((RFlush, None) # cmds) = first_stop cmds"
  "rendered_lines ((RFlush, None) # cmds) = rendered_lines cmds"
  "first_stop ((RLine ev, None) # cmds) = first_stop cmds"
  "rendered_lines ((RLine ev, None) # cmds) = ev # rendered_lines cmds"
  by (simp_all add: first_stop_def rendered_lines_def map_filter_def)

lemma render_batch_out:
  "rt_out (fst (render_batch fmt cmds st)) = rt_out st @ concat (map (format_line fmt) (rendered_lines cmds))
   \<and> ((\<exists>e cmd. snd (render_batch fmt cmds st) = Inl e \<and> first_stop cmds = Some (cmd, Some e))
      \<or> snd (render_batch fmt cmds st) = Inr True \<and> first_stop cmds = Some (RShutdown, None)
          \<and> rt_flushed (fst (render_batch fmt cmds st)) = length (rt_out (fst (render_batch fmt cmds st)))
      \<or> snd (render_batch fmt cmds st) = Inr False \<and> first_stop cmds = None)"
proof (induction fmt cmds st rule: render_batch.induct)
  case (2 fmt cmd io cmds st)
  show ?case
  proof (cases io)
    case None
    show ?thesis
    proof (cases cmd)
      case (RLine ev)
      then show ?thesis using "2.IH"(1) [OF None RLine] None by (auto simp: format_line_def)
    next
      case RFlush
      then show ?thesis using "2.IH"(2) [OF None RFlush] None by (auto simp: flush_out_def)
    qed (simp add: None flush_out_def)
  qed simp
qed simp

lemma render_task_out:
  "rt_out (fst (render_task fmt last_io batches render_init))
     = concat (map (format_line fmt) (rendered_lines (concat batches)))"
proof -
  obtain st r where b: "render_batch fmt (concat batches) render_init = (st, r)" by fastforce
  have "rt_out st = concat (map (format_line fmt) (rendered_lines (concat batches)))"
    using render_batch_out [where fmt = fmt and cmds = "concat batches" and st = render_init]
    unfolding b by (simp add: render_init_def)
  then show ?thesis
    by (subst render_task_concat) (simp add: b flush_out_def split: sum.split bool.split option.split)
qed

text \<open>
  C25: the render task writes every line once and in order, whatever the batches: its output is
  the formatted lines of the commands before the first shutdown or I/O error; if it returns
  normally, all of it has been flushed and the reason is a shutdown or the closed channel; if
  it fails, it is with the first I/O error it met.
\<close>

theorem render_task_exact:
  "case render_task fmt last_io batches render_init of (st, r) \<Rightarrow>
     rt_out st = concat (map (format_line fmt) (rendered_lines (concat batches)))
   \<and> (case r of
        Inr _ \<Rightarrow> rt_flushed st = length (rt_out st)
          \<and> (first_stop (concat batches) = Some (RShutdown, None) \<or> first_stop (concat batches) = None)
      | Inl e \<Rightarrow> (\<exists>cmd. first_stop (concat batches) = Some (cmd, Some e))
          \<or> first_stop (concat batches) = None \<and> last_io = Some e)"
proof -
  obtain st r where b: "render_batch fmt (concat batches) render_init = (st, r)" by fastforce
  have out: "rt_out st = concat (map (format_line fmt) (rendered_lines (concat batches)))"
    and "(\<exists>e. r = Inl e \<and> (\<exists>cmd. first_stop (concat batches) = Some (cmd, Some e)))
      \<or> r = Inr True \<and> rt_flushed st = length (rt_out st) \<and> first_stop (concat batches) = Some (RShutdown, None)
      \<or> r = Inr False \<and> first_stop (concat batches) = None"
    using render_batch_out [where fmt = fmt and cmds = "concat batches" and st = render_init]
    unfolding b by (auto simp: render_init_def)
  with out show ?thesis
    by (subst render_task_concat) (cases last_io; elim disjE exE conjE; simp add: b flush_out_def)
qed

section \<open>Examples\<close>

definition example_event :: log_event where
  "example_event =
     \<lparr>ev_source = \<lparr>sm_context = ''ctx'', sm_namespace = ''default'', sm_pod = ''web'', sm_container = ''app'',
        sm_kind = KPodLog, sm_node = None, sm_labels = [], sm_uid = ''u1'', sm_palette_index = None,
        sm_container_palette_index = None\<rparr>,
      ev_timestamp = 0, ev_message = ''hello'', ev_structured = None, ev_level = None,
      ev_palette_index = None, ev_container_palette_index = None\<rparr>"

definition example_render_lib :: render_lib where
  "example_render_lib =
     \<lparr>rl_chrono = \<lparr>ch_strftime = (\<lambda>_ _ _. ''now''), ch_rfc3339_nanos = (\<lambda>_ _. ''now''), ch_rfc3339 = (\<lambda>_. ''now'')\<rparr>,
      rl_color = \<lparr>co_truecolor = (\<lambda>_ s. s), co_red_bold = (\<lambda>s. ''<'' @ s @ ''>'')\<rparr>,
      rl_to_string = (\<lambda>_. ''row''), rl_to_string_pretty = (\<lambda>_. ''row''),
      rl_from_str = (\<lambda>_. None), rl_show_val = (\<lambda>_. [])\<rparr>"

definition example_plain :: default_line_formatter where
  "example_plain =
     \<lparr>df_timestamp_style = TsOmit, df_timestamp_zone = ZLocal, df_color_enabled = False,
      df_pod_colors = False, df_container_colors = False\<rparr>"

lemma example_plain_line:
  "format_line (default_format_into example_render_lib example_plain) example_event = ''web/app | hello'' @ [newline]"
  by (simp add: format_line_def default_format_into_append wall_prefix_def push_wall_prefix_def
      example_plain_def example_event_def push_colored_def)

theorem default_line_injective_witness:
  "sm_pod (ev_source example_event) = sm_pod (ev_source (example_event\<lparr>ev_level := Some LInfo\<rparr>))
    \<and> ev_message example_event = ev_message (example_event\<lparr>ev_level := Some LInfo\<rparr>)"
  using default_line_injective [of example_render_lib example_plain example_event "example_event\<lparr>ev_level := Some LInfo\<rparr>"]
  by (simp add: format_line_def default_format_into_append example_plain_def example_event_def)

lemma newline_printable: "newline \<noteq> CHR ''r''" "newline \<noteq> CHR ''o''" "newline \<noteq> CHR ''w''"
  by code_simp+

theorem ndjson_rows_separable_witness:
  "split_on newline (concat (map (format_line (line_formatter_of example_render_lib FmtJson)) [example_event, example_event]))
     = [''row'', ''row'', []]"
proof -
  have "newline \<notin> set (rl_to_string example_render_lib v)" for v
    by (simp add: example_render_lib_def newline_printable)
  from ndjson_rows_separable [OF this, of FmtJson False "[example_event, example_event]"] show ?thesis
    by (simp add: example_render_lib_def)
qed

theorem highlight_only_wraps_witness:
  "case highlight_default_line (\<lambda>s. ''<'' @ s @ ''>'') (\<lambda>_. [(2, 4)]) ''- ab!'' of
     None \<Rightarrow> False | Some out \<Rightarrow> out = ''- <ab>!''"
  using highlight_only_wraps [of "''- ab!''" "\<lambda>_. [(2, 4)]" "\<lambda>s. ''<'' @ s @ ''>''"]
  by (simp add: highlight_default_line_def)

end
