(* ===== verification/Stats.thy ===== *)
theory Stats
  imports Config
begin

text \<open>
  The counters of a run (first part of \<open>runtime/forward.rs\<close>): \<open>RunStats\<close>, its report windows,
  and the drop counters \<open>MuxMetrics\<close> and \<open>LossyMetrics\<close>, which mirror into \<open>RunStats\<close> when
  \<open>--stats\<close> is given.  The counters are atomic 64-bit words; an operation on them is a function
  on the record that holds them all, so an interleaving is a sequence of operations.
\<close>

section \<open>\<open>RunStats\<close>\<close>

record run_stats =
  rs_active_streams :: u64
  rs_forwarded_lines :: u64
  rs_dropped_lines :: u64
  rs_mux_dropped_lines :: u64
  rs_source_errors :: u64
  rs_lossy :: bool
  rs_mux_lossy :: bool

definition with_mux_policy :: "bool \<Rightarrow> backpressure_policy \<Rightarrow> run_stats" where
  "with_mux_policy lossy mux_policy =
     \<lparr>rs_active_streams = 0, rs_forwarded_lines = 0, rs_dropped_lines = 0, rs_mux_dropped_lines = 0,
      rs_source_errors = 0, rs_lossy = lossy, rs_mux_lossy = (mux_policy = BpLossy)\<rparr>"

definition from_fwd :: "runtime_fwd_config \<Rightarrow> run_stats" where
  "from_fwd fwd = with_mux_policy (fwd_lossy fwd) (resolved_mux_policy fwd)"

definition record_source_api_error :: "run_stats \<Rightarrow> run_stats" where
  "record_source_api_error s = s\<lparr>rs_source_errors := rs_source_errors s + 1\<rparr>"

definition had_source_errors :: "run_stats \<Rightarrow> bool" where
  "had_source_errors s \<longleftrightarrow> 0 < rs_source_errors s"

definition set_active_streams :: "nat \<Rightarrow> run_stats \<Rightarrow> run_stats" where
  "set_active_streams n s = s\<lparr>rs_active_streams := of_nat n\<rparr>"

definition record_forwarded_line :: "run_stats \<Rightarrow> run_stats" where
  "record_forwarded_line s = s\<lparr>rs_forwarded_lines := rs_forwarded_lines s + 1\<rparr>"

definition record_dropped_line :: "run_stats \<Rightarrow> run_stats" where
  "record_dropped_line s = s\<lparr>rs_dropped_lines := rs_dropped_lines s + 1\<rparr>"

definition record_mux_dropped_line :: "run_stats \<Rightarrow> run_stats" where
  "record_mux_dropped_line s = s\<lparr>rs_mux_dropped_lines := rs_mux_dropped_lines s + 1\<rparr>"

lemmas [runtime_simps] = record_source_api_error_def set_active_streams_def record_forwarded_line_def
  record_dropped_line_def record_mux_dropped_line_def

record run_stats_snapshot =
  sn_active_streams :: u64
  sn_forwarded_lines :: u64
  sn_dropped_lines :: u64
  sn_mux_dropped_lines :: u64

definition snapshot_and_reset :: "run_stats \<Rightarrow> run_stats_snapshot \<times> run_stats" where
  "snapshot_and_reset s =
     (\<lparr>sn_active_streams = rs_active_streams s, sn_forwarded_lines = rs_forwarded_lines s,
       sn_dropped_lines = rs_dropped_lines s, sn_mux_dropped_lines = rs_mux_dropped_lines s\<rparr>,
      s\<lparr>rs_forwarded_lines := 0, rs_dropped_lines := 0, rs_mux_dropped_lines := 0\<rparr>)"

text \<open>\<open>interval\<close> is the text \<open>format!("{interval:?}")\<close> of the report interval.\<close>

definition format_snapshot :: "run_stats_snapshot \<Rightarrow> string \<Rightarrow> bool \<Rightarrow> bool \<Rightarrow> string" where
  "format_snapshot snapshot interval lossy mux_lossy =
     (let per = (\<lambda>what n. what @ ''='' @ show_nat (unat n) @ ''/'' @ interval);
          parts = [''active streams='' @ show_nat (unat (sn_active_streams snapshot)),
                   per ''forwarded lines'' (sn_forwarded_lines snapshot)]
                  @ (if lossy then [per ''dropped lines'' (sn_dropped_lines snapshot)] else [])
                  @ (if mux_lossy then [per ''mux dropped lines'' (sn_mux_dropped_lines snapshot)] else [])
      in ''stats: '' @ join '', '' parts)"

definition format_window :: "string \<Rightarrow> run_stats \<Rightarrow> string \<times> run_stats" where
  "format_window interval s =
     (case snapshot_and_reset s of
        (snapshot, s') \<Rightarrow> (format_snapshot snapshot interval (rs_lossy s) (rs_mux_lossy s), s'))"

section \<open>Drop counters\<close>

text \<open>
  What the mux, forward and reporter tasks of one run share: the statistics, whether they are
  reported (\<open>counter_stats\<close> is \<open>Some\<close> exactly with \<open>--stats\<close>), the counter of \<open>MuxMetrics\<close>, and
  the counter and the time of the last warning of \<open>LossyMetrics\<close>, in milliseconds.
\<close>

record counters =
  ct_stats :: run_stats
  ct_counting :: bool
  ct_mux_dropped :: u64
  ct_dropped_total :: u64
  ct_last_warn_ms :: u64

definition counters_new :: "runtime_fwd_config \<Rightarrow> counters" where
  "counters_new fwd =
     \<lparr>ct_stats = from_fwd fwd, ct_counting = (fwd_stats fwd \<noteq> None),
      ct_mux_dropped = 0, ct_dropped_total = 0, ct_last_warn_ms = 0\<rparr>"

definition counted :: "(run_stats \<Rightarrow> run_stats) \<Rightarrow> counters \<Rightarrow> counters" where
  "counted f c = (if ct_counting c then c\<lparr>ct_stats := f (ct_stats c)\<rparr> else c)"

definition mux_drop_count :: "counters \<Rightarrow> u64" where
  "mux_drop_count c = (if ct_counting c then rs_mux_dropped_lines (ct_stats c) else ct_mux_dropped c)"

definition record_mux_drop :: "counters \<Rightarrow> counters" where
  "record_mux_drop c =
     (if ct_counting c then c\<lparr>ct_stats := record_mux_dropped_line (ct_stats c)\<rparr>
      else c\<lparr>ct_mux_dropped := ct_mux_dropped c + 1\<rparr>)"

definition warn_interval_ms :: u64 where
  "warn_interval_ms = 5000"

definition saturating_sub_u64 :: "u64 \<Rightarrow> u64 \<Rightarrow> u64" where
  "saturating_sub_u64 a b = (if b \<le> a then a - b else 0)"

text \<open>
  A drop at the render channel, at \<open>now_ms\<close> milliseconds after the start; the flag tells whether
  a warning is logged.  Only the forward task records such drops, so its compare-and-exchange
  of the time of the last warning succeeds at once.
\<close>

definition record_drop :: "u64 \<Rightarrow> counters \<Rightarrow> bool \<times> counters" where
  "record_drop now_ms c =
     (let c = c\<lparr>ct_dropped_total := ct_dropped_total c + 1\<rparr>;
          c = counted record_dropped_line c;
          last = ct_last_warn_ms c
      in if saturating_sub_u64 now_ms last \<ge> warn_interval_ms
         then (True, c\<lparr>ct_last_warn_ms := now_ms\<rparr>) else (False, c))"

text \<open>One tick of \<open>cumulative_reporter\<close>: what it logs, if anything.\<close>

definition cumulative_tick :: "counters \<Rightarrow> u64 option \<times> counters" where
  "cumulative_tick c =
     (let total = ct_dropped_total c
      in (if 0 < total then Some total else None, c\<lparr>ct_dropped_total := 0\<rparr>))"

lemma counted_simps [simp]:
  "ct_counting (counted f c) = ct_counting c"
  "ct_mux_dropped (counted f c) = ct_mux_dropped c"
  "ct_dropped_total (counted f c) = ct_dropped_total c"
  by (simp_all add: counted_def)

lemma record_mux_drop_count:
  "mux_drop_count (record_mux_drop c) = mux_drop_count c + 1"
  by (simp add: mux_drop_count_def record_mux_drop_def record_mux_dropped_line_def)

lemma record_mux_drop_frame [simp]:
  "ct_counting (record_mux_drop c) = ct_counting c"
  "rs_active_streams (ct_stats (record_mux_drop c)) = rs_active_streams (ct_stats c)"
  by (simp_all add: record_mux_drop_def record_mux_dropped_line_def)

lemma mux_drop_count_active [simp]:
  "mux_drop_count (counted (set_active_streams n) c) = mux_drop_count c"
  by (simp add: mux_drop_count_def counted_def set_active_streams_def)

section \<open>Report windows\<close>

text \<open>The operations that the tasks of a run perform on the shared statistics, in any order.\<close>

datatype stats_op = StForwarded | StDropped | StMuxDropped | StSourceError | StActive nat | StReport

fun stats_run :: "stats_op list \<Rightarrow> run_stats \<Rightarrow> run_stats_snapshot list \<times> run_stats" where
  "stats_run [] s = ([], s)"
| "stats_run (StForwarded # ops) s = stats_run ops (record_forwarded_line s)"
| "stats_run (StDropped # ops) s = stats_run ops (record_dropped_line s)"
| "stats_run (StMuxDropped # ops) s = stats_run ops (record_mux_dropped_line s)"
| "stats_run (StSourceError # ops) s = stats_run ops (record_source_api_error s)"
| "stats_run (StActive n # ops) s = stats_run ops (set_active_streams n s)"
| "stats_run (StReport # ops) s =
     (case snapshot_and_reset s of (w, s1) \<Rightarrow>
      (case stats_run ops s1 of (ws, s2) \<Rightarrow> (w # ws, s2)))"

lemma stats_run_windows:
  "let (ws, s') = stats_run ops s in
     sum_list (map sn_forwarded_lines ws) + rs_forwarded_lines s'
       = rs_forwarded_lines s + of_nat (count_list ops StForwarded)
   \<and> sum_list (map sn_dropped_lines ws) + rs_dropped_lines s'
       = rs_dropped_lines s + of_nat (count_list ops StDropped)
   \<and> sum_list (map sn_mux_dropped_lines ws) + rs_mux_dropped_lines s'
       = rs_mux_dropped_lines s + of_nat (count_list ops StMuxDropped)
   \<and> rs_source_errors s' = rs_source_errors s + of_nat (count_list ops StSourceError)
   \<and> length ws = count_list ops StReport"
  by (induction ops s rule: stats_run.induct)
    (auto simp: runtime_simps snapshot_and_reset_def Let_def case_prod_unfold algebra_simps)

text \<open>
  The report windows neither lose nor repeat a line: however the tasks' updates and the
  reports interleave, what the windows show together with what is still in the counters is
  the number of lines forwarded, dropped and dropped by the mux (modulo \<open>2 ^ 64\<close>, the width
  of the counters), source errors survive every report, and there is one window per report.
\<close>

theorem stats_windows_exact:
  "let (ws, s') = stats_run ops (with_mux_policy lossy policy) in
     sum_list (map sn_forwarded_lines ws) + rs_forwarded_lines s' = of_nat (count_list ops StForwarded)
   \<and> sum_list (map sn_dropped_lines ws) + rs_dropped_lines s' = of_nat (count_list ops StDropped)
   \<and> sum_list (map sn_mux_dropped_lines ws) + rs_mux_dropped_lines s' = of_nat (count_list ops StMuxDropped)
   \<and> rs_source_errors s' = of_nat (count_list ops StSourceError)
   \<and> length ws = count_list ops StReport"
  using stats_run_windows [of ops "with_mux_policy lossy policy"]
  by (simp add: with_mux_policy_def case_prod_unfold Let_def)

end
