(* ===== verification/Keyed_Store.thy ===== *)
theory Keyed_Store
  imports Source
begin

text \<open>
  The interface of the two keyed caches of the runtime, as the locale \<open>keyed_store\<close>, and the
  sharded hash map both are built on (\<open>inner: Arc<Vec<RwLock<HashMap<K, V>>>>\<close> with 16 shards in
  \<open>runtime/cursor_store.rs\<close> and \<open>runtime/pod_meta_cache.rs\<close>), with the proof that the shards
  implement the interface.  The locks make every operation atomic; \<open>hash\<close> stands for the
  value \<open>DefaultHasher\<close> gives a key.
\<close>

section \<open>The interface\<close>

locale keyed_store =
  fixes new :: 's
    and get :: "'s \<Rightarrow> 'k \<Rightarrow> 'v option"
    and put :: "'k \<Rightarrow> 'v \<Rightarrow> 's \<Rightarrow> 's"
    and del :: "'k \<Rightarrow> 's \<Rightarrow> 's"
    and retain :: "('k \<Rightarrow> bool) \<Rightarrow> 's \<Rightarrow> 's"
    and invar :: "'s \<Rightarrow> bool"
  assumes invar_new: "invar new"
    and get_new: "get new k = None"
    and invar_put: "invar s \<Longrightarrow> invar (put k v s)"
    and get_put: "invar s \<Longrightarrow> get (put k v s) = (get s)(k \<mapsto> v)"
    and invar_del: "invar s \<Longrightarrow> invar (del k s)"
    and get_del: "invar s \<Longrightarrow> get (del k s) = (get s)(k := None)"
    and invar_retain: "invar s \<Longrightarrow> invar (retain P s)"
    and get_retain: "invar s \<Longrightarrow> get (retain P s) k = (if P k then get s k else None)"
begin

lemmas invars = invar_new invar_put invar_del invar_retain
lemmas gets = get_new get_put get_del get_retain

text \<open>Writing only what changes, as the metadata cache does.\<close>

definition put_if_changed :: "'k \<Rightarrow> 'v \<Rightarrow> 's \<Rightarrow> 's" where
  "put_if_changed k v s = (if get s k = Some v then s else put k v s)"

lemma put_if_changed:
  assumes "invar s"
  shows "invar (put_if_changed k v s)" and "get (put_if_changed k v s) = (get s)(k \<mapsto> v)"
  using assms by (auto simp: put_if_changed_def invars gets map_upd_triv)

text \<open>A sequence of writes: for every key the last one wins.\<close>

definition put_all :: "('k \<times> 'v) list \<Rightarrow> 's \<Rightarrow> 's" where
  "put_all kvs s = fold (\<lambda>(k, v). put k v) kvs s"

lemma put_all:
  assumes "invar s"
  shows "invar (put_all kvs s)" and "get (put_all kvs s) = get s ++ map_of (rev kvs)"
proof -
  have "invar (put_all kvs s) \<and> get (put_all kvs s) = get s ++ map_of (rev kvs)"
    using assms
  proof (induction kvs arbitrary: s)
    case (Cons kv kvs)
    then show ?case
      by (cases kv) (simp add: put_all_def invars gets fun_eq_iff map_add_def split: option.split)
  qed (simp add: put_all_def)
  then show "invar (put_all kvs s)" and "get (put_all kvs s) = get s ++ map_of (rev kvs)" by auto
qed

lemma put_all_last:
  assumes "invar s"
  shows "get (put_all (kvs @ [(k, v)]) s) k = Some v"
  using put_all(2) [OF assms] by simp

end

section \<open>Sixteen shards\<close>

type_synonym ('k, 'v) sharded = "('k \<rightharpoonup> 'v) list"

definition shard_count :: nat where
  "shard_count = 16"

definition shard_index :: "('k \<Rightarrow> u64) \<Rightarrow> 'k \<Rightarrow> nat" where
  "shard_index hash key = unat (hash key) mod shard_count"

definition sharded_new :: "('k, 'v) sharded" where
  "sharded_new = map (\<lambda>_. Map.empty) [0 ..< shard_count]"

definition sharded_get :: "('k \<Rightarrow> u64) \<Rightarrow> ('k, 'v) sharded \<Rightarrow> 'k \<Rightarrow> 'v option" where
  "sharded_get hash s key = (s ! shard_index hash key) key"

definition sharded_insert :: "('k \<Rightarrow> u64) \<Rightarrow> 'k \<Rightarrow> 'v \<Rightarrow> ('k, 'v) sharded \<Rightarrow> ('k, 'v) sharded" where
  "sharded_insert hash key v s =
     (let shard = shard_index hash key in s[shard := (s ! shard)(key \<mapsto> v)])"

definition sharded_remove :: "('k \<Rightarrow> u64) \<Rightarrow> 'k \<Rightarrow> ('k, 'v) sharded \<Rightarrow> ('k, 'v) sharded" where
  "sharded_remove hash key s =
     (let shard = shard_index hash key in s[shard := (s ! shard)(key := None)])"

definition sharded_retain :: "('k \<Rightarrow> bool) \<Rightarrow> ('k, 'v) sharded \<Rightarrow> ('k, 'v) sharded" where
  "sharded_retain P s = map (\<lambda>m key. if P key then m key else None) s"

definition sharded_clear :: "('k, 'v) sharded \<Rightarrow> ('k, 'v) sharded" where
  "sharded_clear s = map (\<lambda>_. Map.empty) s"

text \<open>There are 16 shards, and every key is in its own.\<close>

definition sharded_invar :: "('k \<Rightarrow> u64) \<Rightarrow> ('k, 'v) sharded \<Rightarrow> bool" where
  "sharded_invar hash s \<longleftrightarrow>
     length s = shard_count \<and> (\<forall>i < shard_count. \<forall>key \<in> dom (s ! i). shard_index hash key = i)"

lemma sharded_invarD:
  "sharded_invar hash s \<Longrightarrow> i < shard_count \<Longrightarrow> (s ! i) key = Some v \<Longrightarrow> shard_index hash key = i"
  by (auto simp: sharded_invar_def)

lemma shard_index_less [simp]: "shard_index hash key < shard_count"
  by (simp add: shard_index_def shard_count_def)

interpretation sharded: keyed_store
  sharded_new "sharded_get hash" "sharded_insert hash" "sharded_remove hash" sharded_retain
  "sharded_invar hash" for hash :: "'k \<Rightarrow> u64"
proof unfold_locales
  show "sharded_invar hash sharded_new"
    by (simp add: sharded_invar_def sharded_new_def)
  show "sharded_get hash sharded_new k = None" for k
    by (simp add: sharded_get_def sharded_new_def)
  fix s :: "('k, 'v) sharded" and k v P
  assume s: "sharded_invar hash s"
  then have len: "length s = shard_count" by (simp add: sharded_invar_def)
  show "sharded_invar hash (sharded_insert hash k v s)"
    using s by (auto simp: sharded_invar_def sharded_insert_def Let_def nth_list_update split: if_splits)
  show "sharded_get hash (sharded_insert hash k v s) = (sharded_get hash s)(k \<mapsto> v)"
    using len by (auto simp: sharded_get_def sharded_insert_def Let_def nth_list_update)
  show "sharded_invar hash (sharded_remove hash k s)"
    using s by (auto simp: sharded_invar_def sharded_remove_def Let_def nth_list_update split: if_splits)
  show "sharded_get hash (sharded_remove hash k s) = (sharded_get hash s)(k := None)"
    using len by (auto simp: sharded_get_def sharded_remove_def Let_def nth_list_update)
  show "sharded_invar hash (sharded_retain P s)"
    unfolding sharded_invar_def [of hash "sharded_retain P s"]
    using sharded_invarD [OF s] len by (auto simp: sharded_retain_def split: if_splits)
  show "sharded_get hash (sharded_retain P s) k = (if P k then sharded_get hash s k else None)"
    using len by (simp add: sharded_get_def sharded_retain_def)
qed

lemma sharded_clear:
  assumes "sharded_invar hash s"
  shows "sharded_invar hash (sharded_clear s)" and "sharded_get hash (sharded_clear s) key = None"
  using assms by (simp_all add: sharded_invar_def sharded_clear_def sharded_get_def)

text \<open>Iterating over all shards meets exactly the entries that \<open>get\<close> finds.\<close>

lemma sharded_entries:
  assumes "sharded_invar hash s"
  shows "(\<exists>m \<in> set s. m key = Some v) \<longleftrightarrow> sharded_get hash s key = Some v"
proof
  assume "\<exists>m \<in> set s. m key = Some v"
  then obtain i where "i < length s" "(s ! i) key = Some v" by (auto simp: in_set_conv_nth)
  moreover from this assms have "shard_index hash key = i"
    by (intro sharded_invarD) (auto simp: sharded_invar_def)
  ultimately show "sharded_get hash s key = Some v" by (simp add: sharded_get_def)
next
  assume "sharded_get hash s key = Some v"
  with assms show "\<exists>m \<in> set s. m key = Some v"
    by (intro bexI [where x = "s ! shard_index hash key"]) (simp_all add: sharded_invar_def sharded_get_def)
qed

end
