(* ===== verification/Cursor_Store.thy ===== *)
theory Cursor_Store
  imports Keyed_Store Pod_Log
begin

text \<open>
  Cursor reconnect: \<open>runtime/cursor_store.rs\<close> (the last timestamp of every stream, the task that
  applies updates, the log request of a reopened stream) and \<open>runtime/cursor_service.rs\<close> (the
  stream wrappers that report cursors and the end of a stream, waiting for the cursor to be
  flushed, the reopen request).  chrono's subtraction and the conversion of a timestamp to
  jiff's type are parameters.
\<close>

section \<open>The store (\<open>cursor_store.rs\<close>)\<close>

type_synonym cursor_store = "(source_key, timestamp) sharded"

record cursor_update =
  cu_key :: source_key
  cu_timestamp :: timestamp

definition cursor_store_new :: cursor_store where
  "cursor_store_new = sharded_new"

definition cursor_get :: "(source_key \<Rightarrow> u64) \<Rightarrow> cursor_store \<Rightarrow> source_key \<Rightarrow> timestamp option" where
  "cursor_get hash store key = sharded_get hash store key"

definition cursor_record ::
  "(source_key \<Rightarrow> u64) \<Rightarrow> source_key \<Rightarrow> timestamp \<Rightarrow> cursor_store \<Rightarrow> cursor_store" where
  "cursor_record hash key ts store = sharded_insert hash key ts store"

definition cursor_remove :: "(source_key \<Rightarrow> u64) \<Rightarrow> source_key \<Rightarrow> cursor_store \<Rightarrow> cursor_store" where
  "cursor_remove hash key store = sharded_remove hash key store"

interpretation cursors: keyed_store
  cursor_store_new "cursor_get hash" "cursor_record hash" "cursor_remove hash" sharded_retain
  "sharded_invar hash" for hash
  unfolding cursor_store_new_def cursor_get_def [abs_def] cursor_record_def [abs_def]
    cursor_remove_def [abs_def]
  by (rule sharded.keyed_store_axioms)

text \<open>
  The processor wakes up with the state of the token and what \<open>recv\<close> gives: an update, or
  \<open>None\<close> once all senders are gone.  The select is biased, so a cancelled token wins.
\<close>

fun run_cursor_update_processor ::
  "(source_key \<Rightarrow> u64) \<Rightarrow> (bool \<times> cursor_update option) list \<Rightarrow> cursor_store \<Rightarrow> cursor_store" where
  "run_cursor_update_processor hash [] store = store"
| "run_cursor_update_processor hash ((cancelled, recv) # wakes) store =
     (if cancelled then store
      else case recv of
        None \<Rightarrow> store
      | Some u \<Rightarrow> run_cursor_update_processor hash wakes
                    (cursor_record hash (cu_key u) (cu_timestamp u) store))"

text \<open>The updates applied before the token is cancelled or the channel closes.\<close>

fun applied_updates :: "(bool \<times> cursor_update option) list \<Rightarrow> cursor_update list" where
  "applied_updates [] = []"
| "applied_updates ((cancelled, recv) # wakes) =
     (if cancelled then [] else case recv of None \<Rightarrow> [] | Some u \<Rightarrow> u # applied_updates wakes)"

lemma processor_put_all:
  "run_cursor_update_processor hash wakes store =
     cursors.put_all hash (map (\<lambda>u. (cu_key u, cu_timestamp u)) (applied_updates wakes)) store"
  by (induction hash wakes store rule: run_cursor_update_processor.induct)
    (auto simp: cursors.put_all_def split: option.split)

lemma cursor_processor_last:
  assumes "sharded_invar hash store"
  shows "cursor_get hash (run_cursor_update_processor hash wakes store) key =
      (case filter (\<lambda>u. cu_key u = key) (applied_updates wakes) of
         [] \<Rightarrow> cursor_get hash store key
       | us \<Rightarrow> Some (cu_timestamp (last us)))
    \<and> sharded_invar hash (run_cursor_update_processor hash wakes store)"
proof -
  have m: "map_of (rev (map (\<lambda>u. (cu_key u, cu_timestamp u)) us)) key =
      (case filter (\<lambda>u. cu_key u = key) us of [] \<Rightarrow> None | vs \<Rightarrow> Some (cu_timestamp (last vs)))" for us
    by (induction us rule: rev_induct) (auto split: list.splits)
  show ?thesis
    unfolding processor_put_all cursors.put_all(2) [OF assms] map_add_def m
    using cursors.put_all(1) [OF assms] by (simp split: list.split)
qed

text \<open>
  After the cursor task has run, every stream's cursor is the timestamp of the last update
  for that stream that was taken from the channel before shutdown, and what it was before if
  there was none; streams never see each other's cursors, whatever shard they hash to.
\<close>

theorem cursor_processor_exact:
  assumes "sharded_invar hash store"
  shows "cursor_get hash (run_cursor_update_processor hash wakes store) key =
      (case filter (\<lambda>u. cu_key u = key) (applied_updates wakes) of
         [] \<Rightarrow> cursor_get hash store key
       | us \<Rightarrow> Some (cu_timestamp (last us)))
    \<and> sharded_invar hash (run_cursor_update_processor hash wakes store)"
  by (rule cursor_processor_last [OF assms])

theorem cursor_processor_exact_witness:
  "cursor_get (\<lambda>_. 5) (run_cursor_update_processor (\<lambda>_. 5)
     [(False, Some \<lparr>cu_key = SourceKey ''c'' ''n'' ''p'' ''a'' ''u'', cu_timestamp = 10\<rparr>),
      (False, Some \<lparr>cu_key = SourceKey ''c'' ''n'' ''p'' ''b'' ''u'', cu_timestamp = 20\<rparr>),
      (False, Some \<lparr>cu_key = SourceKey ''c'' ''n'' ''p'' ''a'' ''u'', cu_timestamp = 15\<rparr>),
      (True, Some \<lparr>cu_key = SourceKey ''c'' ''n'' ''p'' ''a'' ''u'', cu_timestamp = 30\<rparr>)]
     cursor_store_new) (SourceKey ''c'' ''n'' ''p'' ''a'' ''u'') = Some 15"
  by (simp add: cursor_processor_exact [OF cursors.invar_new] del: run_cursor_update_processor.simps)

section \<open>Reopening a stream\<close>

definition cursor_reconnect_overlap :: int where
  "cursor_reconnect_overlap = 1000000000"

definition overlap_since_time ::
  "(timestamp \<Rightarrow> int \<Rightarrow> timestamp option) \<Rightarrow> (timestamp \<Rightarrow> timestamp option) \<Rightarrow> timestamp \<Rightarrow> timestamp option" where
  "overlap_since_time checked_sub reparse last_timestamp =
     reparse (unwrap_or last_timestamp (checked_sub last_timestamp cursor_reconnect_overlap))"

definition pod_log_request_for_reopen_with_overlap ::
  "pod_log_request \<Rightarrow> timestamp option \<Rightarrow> bool \<Rightarrow> (timestamp \<Rightarrow> timestamp option) \<Rightarrow> pod_log_request" where
  "pod_log_request_for_reopen_with_overlap base last_timestamp reopen overlap =
     (if \<not> reopen then base
      else case Option.bind last_timestamp overlap of
        None \<Rightarrow> base
      | Some since_time \<Rightarrow>
          base\<lparr>plr_tail := None, plr_since_seconds := None, plr_since_time := Some since_time\<rparr>)"

text \<open>chrono and jiff as the code uses them.\<close>

record time_lib =
  tl_checked_sub :: "timestamp \<Rightarrow> int \<Rightarrow> timestamp option"
  tl_reparse :: "timestamp \<Rightarrow> timestamp option"

definition pod_log_request_for_reopen ::
  "time_lib \<Rightarrow> pod_log_request \<Rightarrow> timestamp option \<Rightarrow> bool \<Rightarrow> pod_log_request" where
  "pod_log_request_for_reopen tlib base last_timestamp reopen =
     pod_log_request_for_reopen_with_overlap base last_timestamp reopen
       (overlap_since_time (tl_checked_sub tlib) (tl_reparse tlib))"

section \<open>Tracking streams (\<open>cursor_service.rs\<close>)\<close>

datatype stream_end = EndEof (last_line_ts: "timestamp option") | EndCancelled

datatype 'a poll = Pending | Ready 'a

text \<open>
  The two wrappers as one state: \<open>ts_tracking\<close> says whether the cursor is tracked
  (\<open>CursorTrackingStream\<close>) or only the end reported (\<open>EndNotifyingStream\<close>); \<open>ts_done\<close> is what
  went through the one-shot channel, \<open>ts_sent\<close> what went to the cursor task.
\<close>

record tracked_stream =
  ts_tracking :: bool
  ts_key :: source_key
  ts_last_line_ts :: "timestamp option"
  ts_done :: "stream_end option"
  ts_sent :: "cursor_update list"

definition track :: "bool \<Rightarrow> source_key \<Rightarrow> tracked_stream" where
  "track enabled key =
     \<lparr>ts_tracking = enabled, ts_key = key, ts_last_line_ts = None, ts_done = None, ts_sent = []\<rparr>"

definition finish :: "stream_end \<Rightarrow> tracked_stream \<Rightarrow> tracked_stream" where
  "finish reason st = (case ts_done st of None \<Rightarrow> st\<lparr>ts_done := Some reason\<rparr> | Some _ \<Rightarrow> st)"

definition end_reason :: "bool \<Rightarrow> tracked_stream \<Rightarrow> stream_end" where
  "end_reason cancelled st =
     (if cancelled then EndCancelled
      else EndEof (if ts_tracking st then ts_last_line_ts st else None))"

definition poll_next :: "bool \<Rightarrow> item option poll \<Rightarrow> tracked_stream \<Rightarrow> tracked_stream \<times> item option poll" where
  "poll_next cancelled inner st =
     (case inner of
        Pending \<Rightarrow> (st, Pending)
      | Ready None \<Rightarrow> (finish (end_reason cancelled st) st, Ready None)
      | Ready (Some (Inl e)) \<Rightarrow> (st, Ready (Some (Inl e)))
      | Ready (Some (Inr ev)) \<Rightarrow>
          (if ts_tracking st
           then st\<lparr>ts_last_line_ts := Some (ev_timestamp ev),
                   ts_sent := ts_sent st @ [\<lparr>cu_key = ts_key st, cu_timestamp = ev_timestamp ev\<rparr>]\<rparr>
           else st, Ready (Some (Inr ev))))"

definition drop_stream :: "bool \<Rightarrow> tracked_stream \<Rightarrow> tracked_stream" where
  "drop_stream cancelled st = finish (end_reason cancelled st) st"

text \<open>
  The wrapper without cursor tracking, as it is written: it only reports the end.  It behaves
  as the state above with \<open>ts_tracking\<close> off.
\<close>

record end_notifying_stream =
  en_done :: "stream_end option"

definition end_notifying_new :: end_notifying_stream where
  "end_notifying_new = \<lparr>en_done = None\<rparr>"

definition end_notifying_finish :: "stream_end \<Rightarrow> end_notifying_stream \<Rightarrow> end_notifying_stream" where
  "end_notifying_finish reason st = (if en_done st = None then st\<lparr>en_done := Some reason\<rparr> else st)"

definition end_notifying_reason :: "bool \<Rightarrow> stream_end" where
  "end_notifying_reason cancelled = (if cancelled then EndCancelled else EndEof None)"

definition end_notifying_poll_next ::
  "bool \<Rightarrow> item option poll \<Rightarrow> end_notifying_stream \<Rightarrow> end_notifying_stream \<times> item option poll" where
  "end_notifying_poll_next cancelled inner st =
     (case inner of
        Ready (Some x) \<Rightarrow> (st, Ready (Some x))
      | Ready None \<Rightarrow> (end_notifying_finish (end_notifying_reason cancelled) st, Ready None)
      | Pending \<Rightarrow> (st, Pending))"

definition end_notifying_drop :: "bool \<Rightarrow> end_notifying_stream \<Rightarrow> end_notifying_stream" where
  "end_notifying_drop cancelled st = end_notifying_finish (end_notifying_reason cancelled) st"

definition untracked :: "tracked_stream \<Rightarrow> end_notifying_stream" where
  "untracked st = \<lparr>en_done = ts_done st\<rparr>"

lemma untracked_simulates:
  "untracked (track False key) = end_notifying_new"
  "ts_tracking st = False \<Longrightarrow>
    (case poll_next c i st of (st', r) \<Rightarrow> (untracked st', r)) = end_notifying_poll_next c i (untracked st)"
  "ts_tracking st = False \<Longrightarrow> untracked (drop_stream c st) = end_notifying_drop c (untracked st)"
  by (auto simp: track_def end_notifying_new_def untracked_def poll_next_def end_notifying_poll_next_def
      end_notifying_finish_def end_notifying_reason_def end_notifying_drop_def drop_stream_def end_reason_def
      finish_def split: poll.split option.split sum.split)

fun poll_all :: "(bool \<times> item option poll) list \<Rightarrow> tracked_stream \<Rightarrow> tracked_stream \<times> item option poll list" where
  "poll_all [] st = (st, [])"
| "poll_all ((cancelled, inner) # polls) st =
     (case poll_next cancelled inner st of (st1, r) \<Rightarrow>
      (case poll_all polls st1 of (st2, rs) \<Rightarrow> (st2, r # rs)))"

text \<open>The events among the answers of the inner stream.\<close>

fun ready_events :: "(bool \<times> item option poll) list \<Rightarrow> log_event list" where
  "ready_events [] = []"
| "ready_events ((_, Ready (Some (Inr ev))) # polls) = ev # ready_events polls"
| "ready_events (_ # polls) = ready_events polls"

lemma poll_next_transparent: "snd (poll_next c i st) = i"
  by (auto simp: poll_next_def split: poll.split option.split sum.split)

lemma poll_all_transparent: "snd (poll_all polls st) = map snd polls"
proof (induction polls arbitrary: st)
  case (Cons x polls)
  then show ?case by (cases x) (simp add: case_prod_unfold poll_next_transparent)
qed simp

lemma finish_simps [simp]:
  "ts_sent (finish r st) = ts_sent st" "ts_last_line_ts (finish r st) = ts_last_line_ts st"
  "ts_key (finish r st) = ts_key st" "ts_tracking (finish r st) = ts_tracking st"
  by (simp_all add: finish_def split: option.split)

lemma poll_all_done_kept: "ts_done st = Some r \<Longrightarrow> ts_done (fst (poll_all polls st)) = Some r"
proof (induction polls arbitrary: st)
  case (Cons x polls)
  obtain c i where x: "x = (c, i)" by (cases x)
  have "ts_done (fst (poll_next c i st)) = Some r"
    using Cons.prems by (auto simp: poll_next_def finish_def split: poll.split option.split sum.split)
  then show ?case using Cons.IH by (simp add: x case_prod_unfold)
qed simp

lemma poll_all_frame:
  "ts_tracking (fst (poll_all polls st)) = ts_tracking st
   \<and> ts_key (fst (poll_all polls st)) = ts_key st
   \<and> ts_sent (fst (poll_all polls st)) = ts_sent st @
       (if ts_tracking st
        then map (\<lambda>ev. \<lparr>cu_key = ts_key st, cu_timestamp = ev_timestamp ev\<rparr>) (ready_events polls) else [])
   \<and> ts_last_line_ts (fst (poll_all polls st)) =
       (if ts_tracking st \<and> ready_events polls \<noteq> []
        then Some (ev_timestamp (last (ready_events polls))) else ts_last_line_ts st)"
proof (induction polls arbitrary: st)
  case (Cons x polls)
  obtain c i where x: "x = (c, i)" by (cases x)
  show ?case
  proof (cases i)
    case (Ready r)
    then show ?thesis
    proof (cases r)
      case (Some it)
      with Ready show ?thesis using Cons.IH
        by (cases it) (auto simp: x poll_next_def case_prod_unfold)
    qed (use Cons.IH in \<open>simp add: x poll_next_def case_prod_unfold\<close>)
  qed (use Cons.IH in \<open>simp add: x poll_next_def case_prod_unfold\<close>)
qed simp

lemma poll_all_end:
  assumes "ts_done st = None"
  shows "ts_done (drop_stream c (fst (poll_all polls st))) =
    (let before = takeWhile (\<lambda>(_, i). i \<noteq> Ready None) polls;
         after = dropWhile (\<lambda>(_, i). i \<noteq> Ready None) polls;
         cancelled = (case after of [] \<Rightarrow> c | (c', _) # _ \<Rightarrow> c')
     in Some (if cancelled then EndCancelled
              else EndEof (if \<not> ts_tracking st then None
                else if ready_events before = [] then ts_last_line_ts st
                else Some (ev_timestamp (last (ready_events before))))))"
  using assms
proof (induction polls arbitrary: st)
  case Nil
  then show ?case by (simp add: drop_stream_def finish_def end_reason_def Let_def)
next
  case (Cons x polls)
  obtain c' i where x: "x = (c', i)" by (cases x)
  show ?case
  proof (cases i)
    case Pending
    then show ?thesis using Cons by (simp add: x poll_next_def case_prod_unfold Let_def)
  next
    case (Ready r)
    show ?thesis
    proof (cases r)
      case None
      let ?st = "finish (end_reason c' st) st"
      have d: "ts_done ?st = Some (end_reason c' st)" using Cons.prems by (simp add: finish_def)
      have "ts_done (drop_stream c (fst (poll_all polls ?st))) = Some (end_reason c' st)"
        using poll_all_done_kept [OF d] by (simp add: drop_stream_def finish_def)
      with None Ready show ?thesis
        by (simp add: x poll_next_def case_prod_unfold end_reason_def Let_def)
    next
      case (Some it)
      with Ready Cons show ?thesis
        by (cases it; cases "ts_tracking st") (simp_all add: x poll_next_def case_prod_unfold Let_def)
    qed
  qed
qed

text \<open>
  C35: wrapping a stream changes nothing its consumer sees; with cursors enabled exactly one
  update per delivered event, in order and under the stream's own key, goes to the cursor
  task, and otherwise none; and however the stream ends (end of stream or drop), exactly the
  first ending is reported: as cancelled iff the pod token was cancelled then, else as the end
  of the stream with the timestamp of the last event delivered before it.
\<close>

theorem tracked_stream_exact:
  "let (st, seen) = poll_all polls (track enabled key);
       before = takeWhile (\<lambda>(_, i). i \<noteq> Ready None) polls;
       cancelled = (case dropWhile (\<lambda>(_, i). i \<noteq> Ready None) polls of [] \<Rightarrow> c | (c', _) # _ \<Rightarrow> c')
   in seen = map snd polls
      \<and> ts_sent st = (if enabled
          then map (\<lambda>ev. \<lparr>cu_key = key, cu_timestamp = ev_timestamp ev\<rparr>) (ready_events polls) else [])
      \<and> ts_done (drop_stream c st) = Some (if cancelled then EndCancelled
          else EndEof (if enabled \<and> ready_events before \<noteq> []
                       then Some (ev_timestamp (last (ready_events before))) else None))"
  using poll_all_frame [of polls "track enabled key"] poll_all_end [of "track enabled key" c polls]
    poll_all_transparent [of polls "track enabled key"]
  by (auto simp: track_def case_prod_unfold Let_def)

section \<open>Flushing and the reopen request\<close>

definition cursor_flush_retries :: nat where
  "cursor_flush_retries = 16"

text \<open>
  \<open>snaps i\<close> is the store at the task's \<open>i\<close>-th look at it; between two looks it yields and the
  cursor task may run.  The result is the number of looks taken.
\<close>

fun flush_loop ::
  "(source_key \<Rightarrow> u64) \<Rightarrow> (nat \<Rightarrow> cursor_store) \<Rightarrow> source_key \<Rightarrow> timestamp \<Rightarrow> nat \<Rightarrow> nat \<Rightarrow> nat" where
  "flush_loop hash snaps key expected 0 i = i"
| "flush_loop hash snaps key expected (Suc n) i =
     (case cursor_get hash (snaps i) key of
        Some got \<Rightarrow> if got \<ge> expected then Suc i else flush_loop hash snaps key expected n (Suc i)
      | None \<Rightarrow> flush_loop hash snaps key expected n (Suc i))"

definition wait_cursor_flushed ::
  "(source_key \<Rightarrow> u64) \<Rightarrow> (nat \<Rightarrow> cursor_store) \<Rightarrow> source_key \<Rightarrow> timestamp option \<Rightarrow> nat" where
  "wait_cursor_flushed hash snaps key expected =
     (case expected of None \<Rightarrow> 0 | Some e \<Rightarrow> flush_loop hash snaps key e cursor_flush_retries 0)"

definition reopen_request ::
  "time_lib \<Rightarrow> (source_key \<Rightarrow> u64) \<Rightarrow> bool \<Rightarrow> (nat \<Rightarrow> cursor_store) \<Rightarrow> source_key \<Rightarrow> pod_log_request \<Rightarrow>
     bool \<Rightarrow> timestamp option \<Rightarrow> pod_log_request" where
  "reopen_request tlib hash enabled snaps key base reopen flush_target =
     (let looks = (if reopen \<and> enabled then wait_cursor_flushed hash snaps key flush_target else 0);
          last_timestamp = cursor_get hash (snaps looks) key
      in pod_log_request_for_reopen tlib base last_timestamp (reopen \<and> enabled))"

definition cursor_forget :: "(source_key \<Rightarrow> u64) \<Rightarrow> source_key \<Rightarrow> cursor_store \<Rightarrow> cursor_store" where
  "cursor_forget hash key store = cursor_remove hash key store"

text \<open>
  C16: a reopened stream resumes where the last one ended.  When the cursor task has applied
  the updates of the ended stream, among any others but with no later one for this stream,
  by the time of some look before the sixteenth, and not before, then waiting finds them, and
  the reopen request asks from one second before the last delivered line on, dropping the
  user's \<open>--tail\<close> and \<open>--since\<close>, so no line after it is skipped.
\<close>

theorem reopen_resumes_at_last_line:
  assumes "sharded_invar hash s0" and "ready_events polls \<noteq> []"
    and "t = ev_timestamp (last (ready_events polls))"
    and "applied_updates wakes = earlier @ ts_sent (fst (poll_all polls (track True key))) @ later"
    and "key \<notin> cu_key ` set later"
    and "k < cursor_flush_retries"
    and "\<forall>i. snaps (k + i) = run_cursor_update_processor hash wakes s0"
    and "\<forall>i < k. case cursor_get hash (snaps i) key of None \<Rightarrow> True | Some got \<Rightarrow> got < t"
    and "tl_checked_sub tlib t cursor_reconnect_overlap = Some (t - cursor_reconnect_overlap)"
    and "tl_reparse tlib (t - cursor_reconnect_overlap) = Some (t - cursor_reconnect_overlap)"
  shows "reopen_request tlib hash True snaps key base True (Some t)
    = base\<lparr>plr_tail := None, plr_since_seconds := None, plr_since_time := Some (t - 1000000000)\<rparr>"
proof -
  let ?upd = "\<lambda>ev. \<lparr>cu_key = key, cu_timestamp = ev_timestamp ev\<rparr>"
  have sent: "ts_sent (fst (poll_all polls (track True key))) = map ?upd (ready_events polls)"
    using poll_all_frame [of polls "track True key"] by (simp add: track_def)
  have "filter (\<lambda>u. cu_key u = key) later = []"
    using assms(5) by (auto simp: filter_empty_conv)
  then have f: "filter (\<lambda>u. cu_key u = key) (applied_updates wakes)
      = filter (\<lambda>u. cu_key u = key) earlier @ map ?upd (ready_events polls)"
    by (simp add: assms(4) sent)
  have case_last: "xs \<noteq> [] \<Longrightarrow> (case xs of [] \<Rightarrow> d | us \<Rightarrow> Some (cu_timestamp (last us))) = Some (cu_timestamp (last xs))"
    for xs :: "cursor_update list" and d by (cases xs) simp_all
  have "cursor_get hash (run_cursor_update_processor hash wakes s0) key = Some t"
    using case_last [of "filter (\<lambda>u. cu_key u = key) earlier @ map ?upd (ready_events polls)"]
      assms(2,3)
    by (simp add: conjunct1 [OF cursor_processor_last [OF assms(1)]] f last_map)
  then have final: "cursor_get hash (snaps (k + i)) key = Some t" for i
    using assms(7) by simp
  have loop: "flush_loop hash snaps key t n i = Suc k" if "i \<le> k" "k < i + n" for n i
    using that
  proof (induction n arbitrary: i)
    case (Suc n)
    show ?case
    proof (cases "i = k")
      case True
      then show ?thesis using final [of 0] by simp
    next
      case False
      then have "i < k" using Suc.prems by simp
      with assms(8) have "case cursor_get hash (snaps i) key of None \<Rightarrow> True | Some got \<Rightarrow> got < t"
        by simp
      with Suc \<open>i < k\<close> show ?thesis by (auto split: option.splits)
    qed
  qed simp
  have "wait_cursor_flushed hash snaps key (Some t) = Suc k"
    using loop [of 0 cursor_flush_retries] assms(6) by (simp add: wait_cursor_flushed_def)
  moreover have "cursor_get hash (snaps (Suc k)) key = Some t" using final [of 1] by simp
  ultimately show ?thesis
    using assms(9,10)
    by (simp add: reopen_request_def pod_log_request_for_reopen_def
        pod_log_request_for_reopen_with_overlap_def overlap_since_time_def cursor_reconnect_overlap_def)
qed

theorem reopen_resumes_at_last_line_witness:
  "reopen_request \<lparr>tl_checked_sub = (\<lambda>t d. Some (t - d)), tl_reparse = Some\<rparr> (\<lambda>_. 0) True
     (\<lambda>_. run_cursor_update_processor (\<lambda>_. 0)
        [(False, Some \<lparr>cu_key = SourceKey ''c'' ''n'' ''p'' ''a'' ''u'', cu_timestamp = 7000000000\<rparr>)] cursor_store_new)
     (SourceKey ''c'' ''n'' ''p'' ''a'' ''u'')
     \<lparr>plr_follow = True, plr_tail = Some 10, plr_since_seconds = Some 60, plr_since_time = None, plr_previous = False\<rparr>
     True (Some 7000000000)
   = \<lparr>plr_follow = True, plr_tail = None, plr_since_seconds = None, plr_since_time = Some 6000000000,
      plr_previous = False\<rparr>"
proof -
  let ?key = "SourceKey ''c'' ''n'' ''p'' ''a'' ''u''"
  let ?u = "\<lparr>cu_key = ?key, cu_timestamp = 7000000000\<rparr>"
  obtain m :: source_meta where True by simp
  let ?polls = "[(False, Ready (Some (Inr (mk_log_event m 7000000000 ''x''))))]"
  have sent: "ts_sent (fst (poll_all ?polls (track True ?key))) = [?u]"
    by (simp add: poll_next_def track_def mk_log_event_def)
  have ev: "7000000000 = ev_timestamp (last (ready_events ?polls))" by (simp add: mk_log_event_def)
  have au: "applied_updates [(False, Some ?u)] = [] @ ts_sent (fst (poll_all ?polls (track True ?key))) @ []"
    unfolding sent by simp
  show ?thesis
    using reopen_resumes_at_last_line [OF cursors.invar_new [of "\<lambda>_. 0"] _ ev au, of 0]
    by (simp add: cursor_flush_retries_def cursor_reconnect_overlap_def
        del: run_cursor_update_processor.simps)
qed

end
