(* ===== verification/Mux.thy ===== *)
theory Mux
  imports Stats Cursor_Store "HOL-Library.AList"
begin

text \<open>
  The multiplexer (\<open>runtime/mux.rs\<close>): the loop that takes \<open>Add\<close> and \<open>Remove\<close> commands, merges
  the streams of a \<open>StreamMap\<close> and sends their rows to the pipeline.  A stream is the list of
  the rows it will still yield.  What one \<open>select!\<close> of the loop meets is a \<open>mux_wake\<close>:
  whether the root token is cancelled, what the command channel holds, which streams the poll
  of the map finds ended and from which it takes a row, whether the token is cancelled while a
  blocking send waits, and the state of the raw channel.
\<close>

section \<open>The loop\<close>

datatype mux_cmd = MuxAdd source_key "item list" | MuxRemove source_key

datatype mux_recv = RecvPending | RecvCmd mux_cmd | RecvClosed

datatype channel_state = ChanOk | ChanFull | ChanClosed

record mux_wake =
  mw_cancelled :: bool
  mw_recv :: mux_recv
  mw_ended :: "source_key set"
  mw_poll :: "source_key option"
  mw_cancelled_sending :: bool
  mw_chan :: channel_state

text \<open>
  The \<open>StreamMap\<close>, an association list with one entry per key: \<open>insert\<close> replaces the stream of
  a key, \<open>remove\<close> drops it, and polling drops streams that have ended.
\<close>

record mux_state =
  mx_streams :: "(source_key \<times> item list) list"
  mx_counters :: counters

definition mux_init :: "counters \<Rightarrow> mux_state" where
  "mux_init c = \<lparr>mx_streams = [], mx_counters = c\<rparr>"

text \<open>What the loop does: a stream enters or leaves the map, a row is taken from a stream, sent
  to the pipeline or dropped.\<close>

datatype mux_act =
  Attached source_key "item list" | Detached source_key
| Took source_key item | SentRow item | DroppedRow item

definition publish_active :: "mux_state \<Rightarrow> mux_state" where
  "publish_active st =
     st\<lparr>mx_counters := counted (set_active_streams (length (mx_streams st))) (mx_counters st)\<rparr>"

definition mux_command :: "mux_cmd \<Rightarrow> mux_state \<Rightarrow> mux_act list \<times> mux_state" where
  "mux_command cmd st =
     (case cmd of
        MuxAdd key s \<Rightarrow>
          ([Attached key s], publish_active (st\<lparr>mx_streams := AList.update key s (mx_streams st)\<rparr>))
      | MuxRemove key \<Rightarrow>
          if key \<in> fst ` set (mx_streams st)
          then ([Detached key], publish_active (st\<lparr>mx_streams := AList.delete key (mx_streams st)\<rparr>))
          else ([], st))"

text \<open>\<open>map.next()\<close>: the streams found at their end leave the map, and one row is taken, if any.\<close>

definition drop_ended :: "source_key set \<Rightarrow> (source_key \<times> item list) list \<Rightarrow> (source_key \<times> item list) list" where
  "drop_ended ended = filter (\<lambda>(key, s). \<not> (key \<in> ended \<and> s = []))"

definition stream_map_next ::
  "mux_wake \<Rightarrow> (source_key \<times> item list) list \<Rightarrow>
     (source_key \<times> item) option \<times> (source_key \<times> item list) list" where
  "stream_map_next wk streams =
     (let streams = drop_ended (mw_ended wk) streams in
      case mw_poll wk of
        None \<Rightarrow> (None, streams)
      | Some key \<Rightarrow>
          (case map_of streams key of
             Some (row # rest) \<Rightarrow> (Some (key, row), AList.update key rest streams)
           | _ \<Rightarrow> (None, streams)))"

text \<open>One turn of the loop; the flag says whether it goes on.\<close>

definition mux_iter ::
  "backpressure_policy \<Rightarrow> mux_wake \<Rightarrow> mux_state \<Rightarrow> mux_act list \<times> mux_state \<times> bool" where
  "mux_iter policy wk st =
     (if mw_cancelled wk then ([], st, False)
      else case mw_recv wk of
        RecvCmd cmd \<Rightarrow> (case mux_command cmd st of (acts, st') \<Rightarrow> (acts, st', True))
      | RecvClosed \<Rightarrow> ([], st, False)
      | RecvPending \<Rightarrow>
          if mx_streams st = [] then ([], st, True)
          else case stream_map_next wk (mx_streams st) of
            (None, streams) \<Rightarrow> ([], st\<lparr>mx_streams := streams\<rparr>, True)
          | (Some (key, row), streams) \<Rightarrow>
              (let st = st\<lparr>mx_streams := streams\<rparr> in
               case policy of
                 BpBlocking \<Rightarrow>
                   if mw_cancelled_sending wk then ([Took key row], st, False)
                   else if mw_chan wk = ChanClosed then ([Took key row], st, False)
                   else ([Took key row, SentRow row], st, True)
               | BpLossy \<Rightarrow>
                   (case mw_chan wk of
                      ChanOk \<Rightarrow> ([Took key row, SentRow row], st, True)
                    | ChanFull \<Rightarrow>
                        ([Took key row, DroppedRow row],
                         st\<lparr>mx_counters := record_mux_drop (mx_counters st)\<rparr>, True)
                    | ChanClosed \<Rightarrow> ([Took key row], st, False))))"

definition mux_finish :: "mux_state \<Rightarrow> mux_state" where
  "mux_finish st = st\<lparr>mx_counters := counted (set_active_streams 0) (mx_counters st)\<rparr>"

text \<open>The loop over the turns it is given; the flag says whether it has returned.\<close>

fun mux_multiplex_loop ::
  "backpressure_policy \<Rightarrow> mux_wake list \<Rightarrow> mux_state \<Rightarrow> mux_act list \<times> mux_state \<times> bool" where
  "mux_multiplex_loop policy [] st = ([], st, False)"
| "mux_multiplex_loop policy (wk # wakes) st =
     (case mux_iter policy wk st of
        (acts, st', False) \<Rightarrow> (acts, mux_finish st', True)
      | (acts, st', True) \<Rightarrow>
          (case mux_multiplex_loop policy wakes st' of
             (acts2, st2, returned) \<Rightarrow> (acts @ acts2, st2, returned)))"

section \<open>Observations\<close>

definition taken :: "mux_act list \<Rightarrow> item list" where
  "taken = List.map_filter (\<lambda>a. case a of Took _ row \<Rightarrow> Some row | _ \<Rightarrow> None)"

definition taken_from :: "source_key \<Rightarrow> mux_act list \<Rightarrow> item list" where
  "taken_from key = List.map_filter (\<lambda>a. case a of Took k row \<Rightarrow> if k = key then Some row else None | _ \<Rightarrow> None)"

definition attached :: "source_key \<Rightarrow> mux_act list \<Rightarrow> item list list" where
  "attached key = List.map_filter (\<lambda>a. case a of Attached k s \<Rightarrow> if k = key then Some s else None | _ \<Rightarrow> None)"

definition sent :: "mux_act list \<Rightarrow> item list" where
  "sent = List.map_filter (\<lambda>a. case a of SentRow row \<Rightarrow> Some row | _ \<Rightarrow> None)"

definition dropped :: "mux_act list \<Rightarrow> item list" where
  "dropped = List.map_filter (\<lambda>a. case a of DroppedRow row \<Rightarrow> Some row | _ \<Rightarrow> None)"

definition disposed :: "mux_act list \<Rightarrow> item list" where
  "disposed = List.map_filter (\<lambda>a. case a of SentRow row \<Rightarrow> Some row | DroppedRow row \<Rightarrow> Some row | _ \<Rightarrow> None)"

lemmas observations = taken_def taken_from_def attached_def sent_def dropped_def disposed_def

lemma observations_append [simp]:
  "taken (xs @ ys) = taken xs @ taken ys"
  "taken_from key (xs @ ys) = taken_from key xs @ taken_from key ys"
  "attached key (xs @ ys) = attached key xs @ attached key ys"
  "sent (xs @ ys) = sent xs @ sent ys"
  "dropped (xs @ ys) = dropped xs @ dropped ys"
  "disposed (xs @ ys) = disposed xs @ disposed ys"
  by (simp_all add: observations map_filter_def)

lemma observations_simps [simp]:
  "taken [] = []" "taken (Attached k s # xs) = taken xs" "taken (Detached k # xs) = taken xs"
  "taken (Took k row # xs) = row # taken xs" "taken (SentRow row # xs) = taken xs"
  "taken (DroppedRow row # xs) = taken xs"
  "taken_from key [] = []" "taken_from key (Attached k s # xs) = taken_from key xs"
  "taken_from key (Detached k # xs) = taken_from key xs"
  "taken_from key (Took k row # xs) = (if k = key then row # taken_from key xs else taken_from key xs)"
  "taken_from key (SentRow row # xs) = taken_from key xs" "taken_from key (DroppedRow row # xs) = taken_from key xs"
  "attached key [] = []"
  "attached key (Attached k s # xs) = (if k = key then s # attached key xs else attached key xs)"
  "attached key (Detached k # xs) = attached key xs" "attached key (Took k row # xs) = attached key xs"
  "attached key (SentRow row # xs) = attached key xs" "attached key (DroppedRow row # xs) = attached key xs"
  "sent [] = []" "sent (Attached k s # xs) = sent xs" "sent (Detached k # xs) = sent xs"
  "sent (Took k row # xs) = sent xs" "sent (SentRow row # xs) = row # sent xs" "sent (DroppedRow row # xs) = sent xs"
  "dropped [] = []" "dropped (Attached k s # xs) = dropped xs" "dropped (Detached k # xs) = dropped xs"
  "dropped (Took k row # xs) = dropped xs" "dropped (SentRow row # xs) = dropped xs"
  "dropped (DroppedRow row # xs) = row # dropped xs"
  "disposed [] = []" "disposed (Attached k s # xs) = disposed xs" "disposed (Detached k # xs) = disposed xs"
  "disposed (Took k row # xs) = disposed xs" "disposed (SentRow row # xs) = row # disposed xs"
  "disposed (DroppedRow row # xs) = row # disposed xs"
  by (simp_all add: observations map_filter_def)

section \<open>What one turn does\<close>

text \<open>What is left of a stream; a stream that is not in the map has nothing left.\<close>

definition remaining :: "source_key \<Rightarrow> mux_state \<Rightarrow> item list" where
  "remaining key st = unwrap_or [] (map_of (mx_streams st) key)"

definition mux_ok :: "mux_state \<Rightarrow> bool" where
  "mux_ok st \<longleftrightarrow> distinct (map fst (mx_streams st))"

lemma mux_ok_init [simp]: "mux_ok (mux_init c)"
  by (simp add: mux_ok_def mux_init_def)

lemma remaining_init [simp]: "remaining key (mux_init c) = []"
  by (simp add: remaining_def mux_init_def)

lemma map_of_drop_ended:
  "distinct (map fst streams) \<Longrightarrow>
   unwrap_or [] (map_of (drop_ended ended streams) key) = unwrap_or [] (map_of streams key)"
  by (induction streams)
    (auto simp: drop_ended_def map_of_eq_None_iff [THEN iffD2])

lemma distinct_drop_ended: "distinct (map fst streams) \<Longrightarrow> distinct (map fst (drop_ended ended streams))"
  by (simp add: drop_ended_def distinct_map_filter)

lemma stream_map_next_spec:
  assumes "distinct (map fst streams)" and "stream_map_next wk streams = (r, streams')"
  shows "distinct (map fst streams')"
    and "unwrap_or [] (map_of streams key) =
      (case r of None \<Rightarrow> [] | Some (k, row) \<Rightarrow> if k = key then [row] else [])
        @ unwrap_or [] (map_of streams' key)"
    and "length streams' \<le> length streams"
proof -
  let ?s = "drop_ended (mw_ended wk) streams"
  have d: "distinct (map fst ?s)" by (rule distinct_drop_ended [OF assms(1)])
  have l: "length ?s \<le> length streams" by (simp add: drop_ended_def)
  have u: "length (AList.update k s ?s) = length ?s" if "map_of ?s k = Some y" for k s y
  proof -
    have "k \<in> fst ` set ?s" using that by (metis domI dom_map_of_conv_image_fst)
    then have "map fst (AList.update k s ?s) = map fst ?s" by (simp add: update_keys)
    then show ?thesis by (metis length_map)
  qed
  show "distinct (map fst streams')"
    using assms(2) d by (auto simp: stream_map_next_def Let_def distinct_update split: option.splits list.splits)
  show "length streams' \<le> length streams"
    using assms(2) l by (auto simp: stream_map_next_def Let_def u split: option.splits list.splits)
  show "unwrap_or [] (map_of streams key) =
      (case r of None \<Rightarrow> [] | Some (k, row) \<Rightarrow> if k = key then [row] else [])
        @ unwrap_or [] (map_of streams' key)"
    using assms(2) map_of_drop_ended [OF assms(1), of "mw_ended wk" key]
    by (auto simp: stream_map_next_def Let_def update_conv' split: option.splits list.splits)
qed

lemma mux_iter_ok:
  assumes "mux_ok st" and "mux_iter policy wk st = (acts, st', go)"
  shows "mux_ok st'"
  using assms stream_map_next_spec(1) [of "mx_streams st" wk]
  by (auto simp: mux_iter_def mux_ok_def mux_command_def publish_active_def Let_def distinct_update distinct_delete
      split: if_splits mux_recv.splits mux_cmd.splits prod.splits option.splits
        backpressure_policy.splits channel_state.splits)

lemma mux_iter_rows:
  assumes "mux_iter policy wk st = (acts, st', go)"
  shows "taken acts = disposed acts \<or> \<not> go \<and> (\<exists>row. taken acts = disposed acts @ [row])"
    and "policy = BpBlocking \<Longrightarrow> dropped acts = [] \<and> sent acts = disposed acts"
    and "subseq (sent acts) (disposed acts)"
    and "length (disposed acts) = length (sent acts) + length (dropped acts)"
    and "mux_drop_count (mx_counters st') = mux_drop_count (mx_counters st) + of_nat (length (dropped acts))"
    and "ct_counting (mx_counters st') = ct_counting (mx_counters st)"
  using assms
  by (auto simp: mux_iter_def mux_command_def publish_active_def Let_def record_mux_drop_count
      split: if_splits mux_recv.splits mux_cmd.splits prod.splits option.splits
        backpressure_policy.splits channel_state.splits)

text \<open>A stream loses exactly the rows that are taken from it; only a command replaces or drops it.\<close>

lemma mux_iter_stream:
  assumes "mux_ok st" and "mux_iter policy wk st = (acts, st', go)"
  shows "attached key acts = [] \<and> remaining key st = taken_from key acts @ remaining key st'
    \<or> (\<exists>s. acts = [Attached key s] \<and> remaining key st' = s)
    \<or> acts = [Detached key] \<and> remaining key st' = []"
proof (cases "mw_cancelled wk \<or> mw_recv wk \<noteq> RecvPending \<or> mx_streams st = []")
  case True
  with assms show ?thesis
    by (auto simp: mux_iter_def remaining_def mux_command_def publish_active_def update_conv' delete_conv'
        split: if_splits mux_recv.splits mux_cmd.splits)
next
  case False
  obtain r streams' where n: "stream_map_next wk (mx_streams st) = (r, streams')" by fastforce
  have rem: "remaining key st =
      (case r of None \<Rightarrow> [] | Some (k, row) \<Rightarrow> if k = key then [row] else []) @ unwrap_or [] (map_of streams' key)"
    using stream_map_next_spec(2) [OF _ n, of key] assms(1) by (simp add: remaining_def mux_ok_def)
  have "mx_streams st' = streams' \<and> attached key acts = []
      \<and> taken_from key acts = (case r of None \<Rightarrow> [] | Some (k, row) \<Rightarrow> if k = key then [row] else [])"
    using False n assms(2)
    by (auto simp: mux_iter_def Let_def split: if_splits option.splits prod.splits
        backpressure_policy.splits channel_state.splits)
  with rem show ?thesis by (simp add: remaining_def)
qed

section \<open>The loop delivers in order\<close>

lemma mux_loop_rows:
  assumes "mux_multiplex_loop policy wakes st = (acts, st', returned)"
  shows "(taken acts = disposed acts \<or> returned \<and> (\<exists>row. taken acts = disposed acts @ [row]))
    \<and> (policy = BpBlocking \<longrightarrow> dropped acts = [] \<and> sent acts = disposed acts)
    \<and> subseq (sent acts) (disposed acts)
    \<and> length (disposed acts) = length (sent acts) + length (dropped acts)
    \<and> mux_drop_count (mx_counters st') = mux_drop_count (mx_counters st) + of_nat (length (dropped acts))"
  using assms
proof (induction policy wakes st arbitrary: acts st' returned rule: mux_multiplex_loop.induct)
  case (2 policy wk wakes st)
  obtain acts1 st1 go where i: "mux_iter policy wk st = (acts1, st1, go)" by (cases "mux_iter policy wk st") auto
  note iter = mux_iter_rows [OF i]
  show ?case
  proof (cases go)
    case False
    with i "2.prems" have "acts = acts1" "st' = mux_finish st1" "returned" by auto
    then show ?thesis using iter False by (auto simp: mux_finish_def)
  next
    case True
    obtain acts2 st2 ret where l: "mux_multiplex_loop policy wakes st1 = (acts2, st2, ret)"
      by (cases "mux_multiplex_loop policy wakes st1") auto
    note IH = "2.IH" [OF i [symmetric] refl _ l]
    from i l True "2.prems" have "acts = acts1 @ acts2" "st' = st2" "returned = ret" by auto
    then show ?thesis using iter IH True by (auto simp: list_emb_append_mono)
  qed
qed simp

lemma mux_loop_streams:
  assumes "mux_ok st" and "mux_multiplex_loop policy wakes st = (acts, st', returned)"
  shows "\<exists>p ps. prefix p (remaining key st) \<and> list_all2 prefix ps (attached key acts)
    \<and> taken_from key acts = p @ concat ps"
  using assms
proof (induction policy wakes st arbitrary: acts st' returned rule: mux_multiplex_loop.induct)
  case (2 policy wk wakes st)
  obtain acts1 st1 go where i: "mux_iter policy wk st = (acts1, st1, go)" by (cases "mux_iter policy wk st") auto
  obtain acts2 p ps where rest: "acts = acts1 @ acts2" "prefix p (remaining key st1)"
    "list_all2 prefix ps (attached key acts2)" "taken_from key acts2 = p @ concat ps"
  proof (cases go)
    case False
    with i "2.prems" have "acts = acts1" by auto
    then show ?thesis using that [of "[]" "[]" "[]"] by simp
  next
    case True
    obtain acts2 st2 ret where l: "mux_multiplex_loop policy wakes st1 = (acts2, st2, ret)"
      by (cases "mux_multiplex_loop policy wakes st1") auto
    from i l True "2.prems" have "acts = acts1 @ acts2" by auto
    then show ?thesis
      using that "2.IH" [OF i [symmetric] refl _ mux_iter_ok [OF "2.prems"(1) i] l] True by blast
  qed
  from mux_iter_stream [OF "2.prems"(1) i, of key] show ?case
  proof (elim disjE exE conjE)
    assume "attached key acts1 = []" "remaining key st = taken_from key acts1 @ remaining key st1"
    then show ?thesis using rest by (intro exI [of _ "taken_from key acts1 @ p"] exI [of _ ps]) simp
  next
    fix s assume "acts1 = [Attached key s]" "remaining key st1 = s"
    then show ?thesis using rest by (intro exI [of _ "[]"] exI [of _ "p # ps"]) simp
  next
    assume "acts1 = [Detached key]" "remaining key st1 = []"
    then show ?thesis using rest by (intro exI [of _ "[]"] exI [of _ ps]) simp
  qed
qed simp

text \<open>
  C9: the multiplexer keeps the order of every stream and loses nothing on its own: whatever
  commands, polls and back pressure it meets, the rows it takes from the streams of a key are
  initial segments of the streams added for that key, one after the other; the rows taken are,
  in the order they were taken, the rows sent or dropped, except for one in hand when the loop
  ends; without \<open>--lossy\<close> none is dropped, and with it the drop counter grows by exactly the
  number of rows dropped (modulo \<open>2 ^ 64\<close>).
\<close>

theorem mux_delivers_in_order:
  "let (acts, st, returned) = mux_multiplex_loop policy wakes (mux_init c) in
     (\<forall>key. \<exists>ps. taken_from key acts = concat ps \<and> list_all2 prefix ps (attached key acts))
   \<and> (taken acts = disposed acts \<or> returned \<and> (\<exists>row. taken acts = disposed acts @ [row]))
   \<and> subseq (sent acts) (disposed acts)
   \<and> (case policy of BpBlocking \<Rightarrow> dropped acts = [] \<and> sent acts = disposed acts
      | BpLossy \<Rightarrow> length (disposed acts) = length (sent acts) + length (dropped acts))
   \<and> mux_drop_count (mx_counters st) = mux_drop_count c + of_nat (length (dropped acts))"
proof -
  obtain acts st returned where l: "mux_multiplex_loop policy wakes (mux_init c) = (acts, st, returned)"
    by (cases "mux_multiplex_loop policy wakes (mux_init c)") auto
  have "\<exists>ps. taken_from key acts = concat ps \<and> list_all2 prefix ps (attached key acts)" for key
    using mux_loop_streams [OF mux_ok_init l, of key] by auto
  moreover have "mx_counters (mux_init c) = c" by (simp add: mux_init_def)
  ultimately show ?thesis
    using mux_loop_rows [OF l] unfolding l by (simp split: backpressure_policy.split)
qed

lemma taken_in_order:
  assumes "mux_multiplex_loop policy mwakes (mux_init c) = (acts, m, mret)"
  shows "subseq (sent acts) (taken acts)" and "policy = BpBlocking \<Longrightarrow> prefix (sent acts) (taken acts)"
    and "\<exists>ps. taken_from key acts = concat ps \<and> list_all2 prefix ps (attached key acts)"
proof -
  note rows = mux_loop_rows [OF assms]
  then have taken: "prefix (disposed acts) (taken acts)" by (auto simp: prefix_def)
  with rows show "subseq (sent acts) (taken acts)"
    using prefix_imp_subseq subseq_order.trans by blast
  from rows taken show "policy = BpBlocking \<Longrightarrow> prefix (sent acts) (taken acts)" by simp
  from mux_loop_streams [OF mux_ok_init assms, of key]
  show "\<exists>ps. taken_from key acts = concat ps \<and> list_all2 prefix ps (attached key acts)" by auto
qed

section \<open>The gauge of active streams\<close>

definition gauge_ok :: "mux_state \<Rightarrow> bool" where
  "gauge_ok st \<longleftrightarrow> (\<exists>n \<ge> length (mx_streams st). rs_active_streams (ct_stats (mx_counters st)) = of_nat n)"

lemma mux_iter_gauge:
  assumes "mux_ok st" and "ct_counting (mx_counters st)" and "gauge_ok st"
    and "mux_iter policy wk st = (acts, st', go)"
  shows "gauge_ok st'"
proof (cases "mw_cancelled wk \<or> mw_recv wk \<noteq> RecvPending \<or> mx_streams st = []")
  case True
  with assms show ?thesis
    by (auto simp: mux_iter_def mux_command_def publish_active_def counted_def set_active_streams_def gauge_ok_def
        split: if_splits mux_recv.splits mux_cmd.splits)
next
  case False
  obtain r streams' where n: "stream_map_next wk (mx_streams st) = (r, streams')" by fastforce
  have "mx_streams st' = streams' \<and> rs_active_streams (ct_stats (mx_counters st')) = rs_active_streams (ct_stats (mx_counters st))"
    using False n assms(4)
    by (auto simp: mux_iter_def Let_def split: if_splits option.splits prod.splits
        backpressure_policy.splits channel_state.splits)
  moreover have "length streams' \<le> length (mx_streams st)"
    using stream_map_next_spec(3) [OF _ n] assms(1) by (simp add: mux_ok_def)
  ultimately show ?thesis
    using assms(3) unfolding gauge_ok_def by (metis order_trans)
qed

lemma mux_loop_gauge:
  assumes "mux_ok st" and "ct_counting (mx_counters st)" and "gauge_ok st"
    and "mux_multiplex_loop policy wakes st = (acts, st', returned)"
  shows "if returned then rs_active_streams (ct_stats (mx_counters st')) = 0 else gauge_ok st'"
  using assms
proof (induction policy wakes st arbitrary: acts st' returned rule: mux_multiplex_loop.induct)
  case (2 policy wk wakes st)
  obtain acts1 st1 go where i: "mux_iter policy wk st = (acts1, st1, go)" by (cases "mux_iter policy wk st") auto
  have st1: "mux_ok st1" "ct_counting (mx_counters st1)" "gauge_ok st1"
    using mux_iter_ok [OF "2.prems"(1) i] mux_iter_rows(6) [OF i] mux_iter_gauge [OF "2.prems"(1-3) i]
      "2.prems"(2) by simp_all
  show ?case
  proof (cases go)
    case False
    with i "2.prems"(4) have "st' = mux_finish st1" "returned" by auto
    then show ?thesis using st1(2) by (simp add: mux_finish_def counted_def set_active_streams_def)
  next
    case True
    obtain acts2 st2 ret where l: "mux_multiplex_loop policy wakes st1 = (acts2, st2, ret)"
      by (cases "mux_multiplex_loop policy wakes st1") auto
    with i True "2.prems"(4) have "st' = st2" "returned = ret" by auto
    then show ?thesis using "2.IH" [OF i [symmetric] refl _ st1 l] True by simp
  qed
qed simp

text \<open>
  With \<open>--stats\<close> the gauge of active streams never shows fewer streams than the
  multiplexer holds while it runs, and shows none once it has returned.
\<close>

theorem active_streams_gauge:
  "let (acts, st, returned) =
         mux_multiplex_loop policy wakes (mux_init (counters_new (fwd\<lparr>fwd_stats := Some i\<rparr>)));
       shown = rs_active_streams (ct_stats (mx_counters st))
   in if returned then shown = 0 else \<exists>n \<ge> length (mx_streams st). shown = of_nat n"
proof -
  let ?st = "mux_init (counters_new (fwd\<lparr>fwd_stats := Some i\<rparr>))"
  obtain acts st returned where l: "mux_multiplex_loop policy wakes ?st = (acts, st, returned)"
    by (cases "mux_multiplex_loop policy wakes ?st") auto
  have "ct_counting (mx_counters ?st)" and "gauge_ok ?st"
    by (simp_all add: mux_init_def counters_new_def gauge_ok_def from_fwd_def with_mux_policy_def
        exI [of _ "0::nat"])
  from mux_loop_gauge [OF mux_ok_init this l] show ?thesis
    unfolding l gauge_ok_def by (simp only: Let_def prod.case)
qed

text \<open>It may show more: a stream that ends is not subtracted before the next command.\<close>

lemma gauge_stale_after_end:
  "case mux_multiplex_loop BpBlocking
      [\<lparr>mw_cancelled = False, mw_recv = RecvCmd (MuxAdd k []), mw_ended = {}, mw_poll = None,
        mw_cancelled_sending = False, mw_chan = ChanOk\<rparr>,
       \<lparr>mw_cancelled = False, mw_recv = RecvPending, mw_ended = {k}, mw_poll = None,
        mw_cancelled_sending = False, mw_chan = ChanOk\<rparr>]
      (mux_init (counters_new (fwd\<lparr>fwd_stats := Some i\<rparr>))) of
     (acts, st, returned) \<Rightarrow> mx_streams st = [] \<and> rs_active_streams (ct_stats (mx_counters st)) = 1"
  by (simp add: mux_iter_def mux_command_def publish_active_def mux_init_def counters_new_def counted_def
      set_active_streams_def stream_map_next_def drop_ended_def)

end
