(* ===== verification/Forward.thy ===== *)
theory Forward
  imports Render Stats Pipeline Mux
begin

text \<open>
  Forwarding (\<open>forward_to_render\<close> in \<open>runtime/forward.rs\<close>): the loop that pulls the rows of the
  raw channel through the pipeline and sends the lines to the render task.  What one \<open>select!\<close>
  of the loop meets is a \<open>fwd_wake\<close>: whether others have cancelled the root token, the rows
  that have arrived since, whether the raw channel is closed after them, whether others cancel
  while a send waits, the state of the render channel and the clock.  The token is also
  cancelled by the pipeline's own exit watch.
\<close>

section \<open>Pulling one item through the pipeline\<close>

text \<open>Polling the pipeline takes rows until it yields an item or no row is left.\<close>

fun pull :: "stage \<Rightarrow> exit_watch \<Rightarrow> item list \<Rightarrow> exit_watch \<times> item option \<times> item list" where
  "pull st w [] = (w, None, [])"
| "pull st w (r # rs) =
     (case st w r of (w', None) \<Rightarrow> pull st w' rs | (w', Some x) \<Rightarrow> (w', Some x, rs))"

section \<open>The loop\<close>

record fwd_wake =
  fw_cancelled :: bool
  fw_arrived :: "item list"
  fw_closed :: bool
  fw_cancelled_sending :: bool
  fw_chan :: channel_state
  fw_now_ms :: u64

record fwd_state =
  fs_watch :: exit_watch
  fs_queue :: "item list"
  fs_sent :: "log_event list"
  fs_counters :: counters

definition fwd_init :: "exit_watch \<Rightarrow> counters \<Rightarrow> fwd_state" where
  "fwd_init w c = \<lparr>fs_watch = w, fs_queue = [], fs_sent = [], fs_counters = c\<rparr>"

definition forwarded :: "log_event \<Rightarrow> fwd_state \<Rightarrow> fwd_state" where
  "forwarded ev s =
     s\<lparr>fs_sent := fs_sent s @ [ev], fs_counters := counted record_forwarded_line (fs_counters s)\<rparr>"

text \<open>What the loop does with an item of the pipeline; the flag says whether it goes on.\<close>

definition forward_item :: "bool \<Rightarrow> fwd_wake \<Rightarrow> item \<Rightarrow> fwd_state \<Rightarrow> fwd_state \<times> bool" where
  "forward_item lossy wk x s =
     (case x of
        Inr ev \<Rightarrow>
          if lossy then
            (case fw_chan wk of
               ChanOk \<Rightarrow> (forwarded ev s, True)
             | ChanFull \<Rightarrow> (s\<lparr>fs_counters := snd (record_drop (fw_now_ms wk) (fs_counters s))\<rparr>, True)
             | ChanClosed \<Rightarrow> (s, False))
          else if fw_cancelled_sending wk \<or> ew_cancelled (fs_watch s) then (s, False)
          else if fw_chan wk = ChanClosed then (s, False)
          else (forwarded ev s, True)
      | Inl (Api e) \<Rightarrow>
          (s\<lparr>fs_counters := (fs_counters s)\<lparr>ct_stats := record_source_api_error (ct_stats (fs_counters s))\<rparr>\<rparr>, True)
      | Inl Eof \<Rightarrow> (s, True)
      | Inl Cancelled \<Rightarrow> (s, True))"

definition forward_iter :: "stage \<Rightarrow> bool \<Rightarrow> fwd_wake \<Rightarrow> fwd_state \<Rightarrow> fwd_state \<times> bool" where
  "forward_iter pipeline lossy wk s =
     (if fw_cancelled wk \<or> ew_cancelled (fs_watch s) then (s, False)
      else case pull pipeline (fs_watch s) (fs_queue s @ fw_arrived wk) of
        (w, None, rest) \<Rightarrow> (s\<lparr>fs_watch := w, fs_queue := rest\<rparr>, \<not> fw_closed wk)
      | (w, Some x, rest) \<Rightarrow> forward_item lossy wk x (s\<lparr>fs_watch := w, fs_queue := rest\<rparr>))"

fun forward_to_render :: "stage \<Rightarrow> bool \<Rightarrow> fwd_wake list \<Rightarrow> fwd_state \<Rightarrow> fwd_state \<times> bool" where
  "forward_to_render pipeline lossy [] s = (s, False)"
| "forward_to_render pipeline lossy (wk # wakes) s =
     (case forward_iter pipeline lossy wk s of
        (s', False) \<Rightarrow> (s', True)
      | (s', True) \<Rightarrow> forward_to_render pipeline lossy wakes s')"

section \<open>What has been forwarded\<close>

lemma run_stage_append:
  "run_stage st w (xs @ ys) =
     (case run_stage st w xs of (w1, out1) \<Rightarrow>
      (case run_stage st w1 ys of (w2, out2) \<Rightarrow> (w2, out1 @ out2)))"
  by (induction xs arbitrary: w) (auto split: prod.split option.split)

lemma pull_run_stage:
  assumes "pull st w xs = (w', r, rest)"
  shows "\<exists>pre. xs = pre @ rest \<and> run_stage st w pre = (w', case r of None \<Rightarrow> [] | Some x \<Rightarrow> [x])
    \<and> (r = None \<longrightarrow> rest = [])"
  using assms
proof (induction st w xs rule: pull.induct)
  case (2 st w x xs)
  show ?case
  proof (cases "st w x")
    case (Pair w1 o1)
    show ?thesis
    proof (cases o1)
      case None
      then obtain pre where "xs = pre @ rest" "run_stage st w1 pre = (w', case r of None \<Rightarrow> [] | Some x \<Rightarrow> [x])"
        "r = None \<longrightarrow> rest = []"
        using 2 Pair by auto
      then show ?thesis using Pair None by (intro exI [of _ "x # pre"]) simp
    next
      case (Some y)
      then show ?thesis using 2 Pair by (intro exI [of _ "[x]"]) auto
    qed
  qed
qed simp

fun api_errors :: "item list \<Rightarrow> nat" where
  "api_errors [] = 0"
| "api_errors (Inl (Api e) # xs) = Suc (api_errors xs)"
| "api_errors (_ # xs) = api_errors xs"

lemma api_errors_append [simp]: "api_errors (xs @ ys) = api_errors xs + api_errors ys"
  by (induction xs rule: api_errors.induct) auto

lemma record_drop_frame [simp]:
  "rs_source_errors (ct_stats (snd (record_drop now c))) = rs_source_errors (ct_stats c)"
  "ct_dropped_total (snd (record_drop now c)) = ct_dropped_total c + 1"
  by (simp_all add: record_drop_def Let_def counted_def record_dropped_line_def)

lemma forwarded_frame [simp]:
  "rs_source_errors (ct_stats (fs_counters (forwarded ev s))) = rs_source_errors (ct_stats (fs_counters s))"
  "ct_dropped_total (fs_counters (forwarded ev s)) = ct_dropped_total (fs_counters s)"
  "fs_sent (forwarded ev s) = fs_sent s @ [ev]" "fs_watch (forwarded ev s) = fs_watch s"
  "fs_queue (forwarded ev s) = fs_queue s"
  by (simp_all add: forwarded_def counted_def record_forwarded_line_def)

text \<open>
  The relation between the items \<open>xs\<close> that have left the pipeline and a run of the loop from
  \<open>s\<close> to \<open>s'\<close>: which events were sent, how many were dropped at the full channel, and at most
  one event in hand when the loop returned.
\<close>

definition forward_rel :: "bool \<Rightarrow> item list \<Rightarrow> fwd_state \<Rightarrow> fwd_state \<Rightarrow> bool \<Rightarrow> bool" where
  "forward_rel lossy xs s s' returned \<longleftrightarrow>
     (\<exists>mid lost hand.
        fs_sent s' = fs_sent s @ mid
      \<and> subseq mid (ok_events xs)
      \<and> length (ok_events xs) = length mid + lost + length hand
      \<and> (\<not> lossy \<longrightarrow> lost = 0 \<and> ok_events xs = mid @ hand)
      \<and> length hand \<le> (if returned then 1 else 0)
      \<and> ct_dropped_total (fs_counters s') = ct_dropped_total (fs_counters s) + of_nat lost
      \<and> rs_source_errors (ct_stats (fs_counters s'))
          = rs_source_errors (ct_stats (fs_counters s)) + of_nat (api_errors xs))"

lemma forward_rel_refl: "forward_rel lossy [] s s returned"
  by (auto simp: forward_rel_def)

lemma forward_rel_trans:
  assumes "forward_rel lossy xs s s1 False" and "forward_rel lossy ys s1 s2 returned"
  shows "forward_rel lossy (xs @ ys) s s2 returned"
proof -
  obtain mid1 lost1 where 1: "fs_sent s1 = fs_sent s @ mid1" "subseq mid1 (ok_events xs)"
    "length (ok_events xs) = length mid1 + lost1" "\<not> lossy \<longrightarrow> lost1 = 0 \<and> ok_events xs = mid1"
    "ct_dropped_total (fs_counters s1) = ct_dropped_total (fs_counters s) + of_nat lost1"
    "rs_source_errors (ct_stats (fs_counters s1)) = rs_source_errors (ct_stats (fs_counters s)) + of_nat (api_errors xs)"
    using assms(1) by (auto simp: forward_rel_def)
  obtain mid2 lost2 hand where 2: "fs_sent s2 = fs_sent s1 @ mid2" "subseq mid2 (ok_events ys)"
    "length (ok_events ys) = length mid2 + lost2 + length hand"
    "\<not> lossy \<longrightarrow> lost2 = 0 \<and> ok_events ys = mid2 @ hand"
    "length hand \<le> (if returned then 1 else 0)"
    "ct_dropped_total (fs_counters s2) = ct_dropped_total (fs_counters s1) + of_nat lost2"
    "rs_source_errors (ct_stats (fs_counters s2)) = rs_source_errors (ct_stats (fs_counters s1)) + of_nat (api_errors ys)"
    using assms(2) by (auto simp: forward_rel_def)
  show ?thesis
    unfolding forward_rel_def
    by (rule exI [of _ "mid1 @ mid2"], rule exI [of _ "lost1 + lost2"], rule exI [of _ hand])
      (use 1 2 in \<open>auto simp: list_emb_append_mono\<close>)
qed

lemma forward_item_rel:
  assumes "forward_item lossy wk x s = (s', go)"
  shows "forward_rel lossy [x] s s' (\<not> go)"
    and "fs_watch s' = fs_watch s" and "fs_queue s' = fs_queue s"
    and "\<not> lossy \<Longrightarrow> fs_sent s' \<noteq> fs_sent s \<Longrightarrow> \<not> ew_cancelled (fs_watch s')"
    and "\<not> go \<Longrightarrow> fs_sent s' = fs_sent s"
proof -
  show "fs_watch s' = fs_watch s" "fs_queue s' = fs_queue s"
    "\<not> lossy \<Longrightarrow> fs_sent s' \<noteq> fs_sent s \<Longrightarrow> \<not> ew_cancelled (fs_watch s')"
    "\<not> go \<Longrightarrow> fs_sent s' = fs_sent s"
    using assms
    by (auto simp: forward_item_def split: sum.splits log_source_error.splits if_splits channel_state.splits)
  show "forward_rel lossy [x] s s' (\<not> go)"
  proof (cases x)
    case (Inl e)
    then show ?thesis using assms
      by (cases e) (auto simp: forward_item_def forward_rel_def record_source_api_error_def)
  next
    case (Inr ev)
    have sent: "forward_rel lossy [x] s (forwarded ev s) False"
      unfolding forward_rel_def Inr
      by (rule exI [of _ "[ev]"], rule exI [of _ 0], rule exI [of _ "[]"]) simp
    have kept: "forward_rel lossy [x] s s True"
      unfolding forward_rel_def Inr
      by (rule exI [of _ "[]"], rule exI [of _ 0], rule exI [of _ "[ev]"]) simp
    have lost: "forward_rel True [x] s (s\<lparr>fs_counters := snd (record_drop (fw_now_ms wk) (fs_counters s))\<rparr>) False"
      unfolding forward_rel_def Inr
      by (rule exI [of _ "[]"], rule exI [of _ 1], rule exI [of _ "[]"]) simp
    from assms sent kept lost Inr show ?thesis
      by (auto simp: forward_item_def split: if_splits channel_state.splits)
  qed
qed

lemma forward_iter_rel:
  assumes "forward_iter pipeline lossy wk s = (s', go)"
  shows "\<exists>pre post outs. fs_queue s @ fw_arrived wk = pre @ post
      \<and> run_stage pipeline (fs_watch s) pre = (fs_watch s', outs)
      \<and> forward_rel lossy outs s s' (\<not> go)
      \<and> (go \<longrightarrow> post = fs_queue s')
      \<and> (\<not> go \<longrightarrow> fs_sent s' = fs_sent s)
      \<and> (lossy \<or> fs_sent s' = fs_sent s \<or> \<not> ew_cancelled (fs_watch s'))"
proof (cases "fw_cancelled wk \<or> ew_cancelled (fs_watch s)")
  case True
  with assms have "s' = s" "\<not> go" by (auto simp: forward_iter_def)
  then show ?thesis
    by (intro exI [of _ "[]"] conjI exI [of _ "fs_queue s @ fw_arrived wk"]) (simp_all add: forward_rel_refl)
next
  case False
  obtain w r rest where p: "pull pipeline (fs_watch s) (fs_queue s @ fw_arrived wk) = (w, r, rest)"
    by (cases "pull pipeline (fs_watch s) (fs_queue s @ fw_arrived wk)") auto
  obtain pre where pre: "fs_queue s @ fw_arrived wk = pre @ rest"
    "run_stage pipeline (fs_watch s) pre = (w, case r of None \<Rightarrow> [] | Some x \<Rightarrow> [x])"
    using pull_run_stage [OF p] by blast
  let ?s1 = "s\<lparr>fs_watch := w, fs_queue := rest\<rparr>"
  have frame: "forward_rel lossy xs ?s1 s2 b = forward_rel lossy xs s s2 b" for xs s2 b
    by (simp add: forward_rel_def)
  show ?thesis
  proof (cases r)
    case None
    with False assms p have "s' = ?s1" by (auto simp: forward_iter_def)
    with pre None show ?thesis
      by (intro exI [of _ pre] exI [of _ rest] exI [of _ "[]"]) (auto simp: frame [symmetric] forward_rel_refl)
  next
    case (Some x)
    with False assms p have i: "forward_item lossy wk x ?s1 = (s', go)" by (simp add: forward_iter_def)
    show ?thesis
      using forward_item_rel [OF i] pre Some
      by (intro exI [of _ pre] exI [of _ rest] exI [of _ "[x]"]) (auto simp: frame)
  qed
qed

lemma forward_loop_rel:
  assumes "forward_to_render pipeline lossy wakes s = (s', returned)"
  shows "\<exists>pre post outs. fs_queue s @ concat (map fw_arrived wakes) = pre @ post
      \<and> run_stage pipeline (fs_watch s) pre = (fs_watch s', outs)
      \<and> forward_rel lossy outs s s' returned \<and> (\<not> returned \<longrightarrow> post = fs_queue s')"
  using assms
proof (induction wakes arbitrary: s)
  case Nil
  then show ?case by (intro exI [of _ "[]"] exI [of _ "fs_queue s"]) (auto simp: forward_rel_refl)
next
  case (Cons wk wakes)
  obtain s1 go where i: "forward_iter pipeline lossy wk s = (s1, go)" by fastforce
  from forward_iter_rel [OF i] obtain pre1 post1 outs1 where
    1: "fs_queue s @ fw_arrived wk = pre1 @ post1" "run_stage pipeline (fs_watch s) pre1 = (fs_watch s1, outs1)"
      "forward_rel lossy outs1 s s1 (\<not> go)" "go \<longrightarrow> post1 = fs_queue s1" by blast
  show ?case
  proof (cases go)
    case False
    with i Cons.prems have "s' = s1" "returned" by auto
    then show ?thesis using 1 False
      by (intro exI [of _ pre1] exI [of _ "post1 @ concat (map fw_arrived wakes)"] exI [of _ outs1]) simp
  next
    case True
    with i Cons.prems have "forward_to_render pipeline lossy wakes s1 = (s', returned)" by simp
    from Cons.IH [OF this] obtain pre2 post2 outs2 where
      2: "fs_queue s1 @ concat (map fw_arrived wakes) = pre2 @ post2"
        "run_stage pipeline (fs_watch s1) pre2 = (fs_watch s', outs2)"
        "forward_rel lossy outs2 s1 s' returned" "\<not> returned \<longrightarrow> post2 = fs_queue s'" by blast
    have "forward_rel lossy (outs1 @ outs2) s s' returned"
      using forward_rel_trans 1(3) 2(3) True by simp
    moreover have "fs_queue s @ concat (map fw_arrived (wk # wakes)) = (pre1 @ pre2) @ post2"
      using 1(1,4) 2(1) True by (metis append.assoc concat.simps(2) list.simps(9))
    moreover have "run_stage pipeline (fs_watch s) (pre1 @ pre2) = (fs_watch s', outs1 @ outs2)"
      using 1(2) 2(2) by (simp add: run_stage_append)
    ultimately show ?thesis using 2(4) by blast
  qed
qed

text \<open>
  C10: forwarding is faithful: the loop sees an initial segment of the rows of the raw channel,
  runs the pipeline over exactly these, and sends what comes out in order: all of it except one
  line in hand when it returns, and with \<open>--lossy\<close> all of it except that and the lines counted
  as dropped; every API error of the segment is counted as a source error, with or without
  \<open>--stats\<close>, and nothing else is.
\<close>

theorem forward_exact:
  "let (s, returned) = forward_to_render pipeline lossy wakes (fwd_init w c);
       rows = concat (map fw_arrived wakes)
   in \<exists>seen rest outs lost hand.
        rows = seen @ rest \<and> run_stage pipeline w seen = (fs_watch s, outs)
      \<and> subseq (fs_sent s) (ok_events outs)
      \<and> length (ok_events outs) = length (fs_sent s) + lost + length hand
      \<and> (if lossy then True else lost = 0 \<and> ok_events outs = fs_sent s @ hand)
      \<and> length hand \<le> (if returned then 1 else 0)
      \<and> ct_dropped_total (fs_counters s) = ct_dropped_total c + of_nat lost
      \<and> rs_source_errors (ct_stats (fs_counters s)) = rs_source_errors (ct_stats c) + of_nat (api_errors outs)"
proof -
  obtain s returned where l: "forward_to_render pipeline lossy wakes (fwd_init w c) = (s, returned)" by fastforce
  from forward_loop_rel [OF l] obtain pre post outs where
    "concat (map fw_arrived wakes) = pre @ post" "run_stage pipeline w pre = (fs_watch s, outs)"
    and rel: "forward_rel lossy outs (fwd_init w c) s returned"
    by (auto simp: fwd_init_def)
  moreover obtain mid lost hand where "fs_sent s = fs_sent (fwd_init w c) @ mid"
    and m: "subseq mid (ok_events outs)" "length (ok_events outs) = length mid + lost + length hand"
      "\<not> lossy \<longrightarrow> lost = 0 \<and> ok_events outs = mid @ hand" "length hand \<le> (if returned then 1 else 0)"
      "ct_dropped_total (fs_counters s) = ct_dropped_total (fs_counters (fwd_init w c)) + of_nat lost"
      "rs_source_errors (ct_stats (fs_counters s))
        = rs_source_errors (ct_stats (fs_counters (fwd_init w c))) + of_nat (api_errors outs)"
    using rel unfolding forward_rel_def by blast
  moreover have "if lossy then True else lost = 0 \<and> ok_events outs = mid @ hand" using m(3) by simp
  moreover have "fs_sent (fwd_init w c) = []" "fs_counters (fwd_init w c) = c" by (simp_all add: fwd_init_def)
  ultimately show ?thesis
    unfolding l Let_def prod.case by (metis append_Nil)
qed

section \<open>An exit trigger cuts the output\<close>

definition exit_watch_new :: exit_watch where
  "exit_watch_new = \<lparr>ew_triggered = False, ew_cancelled = False\<rparr>"

lemma forward_blocking_uncancelled:
  assumes "forward_to_render pipeline False wakes s = (s', returned)"
  shows "\<exists>pre post. fs_queue s @ concat (map fw_arrived wakes) = pre @ post
      \<and> fs_sent s' = fs_sent s @ ok_events (snd (run_stage pipeline (fs_watch s) pre))
      \<and> (pre = [] \<or> \<not> ew_cancelled (fst (run_stage pipeline (fs_watch s) pre)))"
  using assms
proof (induction wakes arbitrary: s)
  case Nil
  then show ?case by (intro exI [of _ "[]"] exI [of _ "fs_queue s"]) auto
next
  case (Cons wk wakes)
  obtain s1 go where i: "forward_iter pipeline False wk s = (s1, go)" by fastforce
  from forward_iter_rel [OF i] obtain pre1 post1 outs1 where
    1: "fs_queue s @ fw_arrived wk = pre1 @ post1" "run_stage pipeline (fs_watch s) pre1 = (fs_watch s1, outs1)"
      "forward_rel False outs1 s s1 (\<not> go)" "go \<longrightarrow> post1 = fs_queue s1" "\<not> go \<longrightarrow> fs_sent s1 = fs_sent s"
      "fs_sent s1 = fs_sent s \<or> \<not> ew_cancelled (fs_watch s1)" by blast
  show ?case
  proof (cases go)
    case False
    with i Cons.prems 1(5) have "fs_sent s' = fs_sent s" by auto
    then show ?thesis
      by (intro exI [of _ "[]"] exI [of _ "fs_queue s @ concat (map fw_arrived (wk # wakes))"]) simp
  next
    case True
    with i Cons.prems have "forward_to_render pipeline False wakes s1 = (s', returned)" by simp
    from Cons.IH [OF this] obtain pre2 post2 where
      2: "fs_queue s1 @ concat (map fw_arrived wakes) = pre2 @ post2"
        "fs_sent s' = fs_sent s1 @ ok_events (snd (run_stage pipeline (fs_watch s1) pre2))"
        "pre2 = [] \<or> \<not> ew_cancelled (fst (run_stage pipeline (fs_watch s1) pre2))" by blast
    have sent1: "fs_sent s1 = fs_sent s @ ok_events outs1"
      using 1(3) True by (auto simp: forward_rel_def)
    have rows: "fs_queue s @ concat (map fw_arrived (wk # wakes)) = (pre1 @ pre2) @ post2"
      using 1(1,4) 2(1) True by (metis append.assoc concat.simps(2) list.simps(9))
    show ?thesis
    proof (cases "pre2 = []")
      case False
      then show ?thesis
        using rows 1(2) 2(2,3) sent1
        by (intro exI [of _ "pre1 @ pre2"] exI [of _ post2]) (simp add: run_stage_append case_prod_unfold)
    next
      case nil: True
      show ?thesis
      proof (cases "fs_sent s1 = fs_sent s")
        case True
        then show ?thesis using 2(2) nil
          by (intro exI [of _ "[]"] exI [of _ "fs_queue s @ concat (map fw_arrived (wk # wakes))"]) simp
      next
        case False
        then show ?thesis
          using rows 1(2,6) 2(2) sent1 nil
          by (intro exI [of _ pre1] exI [of _ "pre2 @ post2"]) simp
      qed
    qed
  qed
qed

definition row_fires :: "json_lib \<Rightarrow> pipeline_stages \<Rightarrow> item \<Rightarrow> bool" where
  "row_fires lib p r = (case r of Inl _ \<Rightarrow> False | Inr ev \<Rightarrow> event_fires lib p ev)"

lemma pipeline_uncancelled_rows:
  assumes "\<not> ew_cancelled (fst (run_stage (apply_pipeline lib sea p) exit_watch_new rows))"
  shows "\<forall>r \<in> set rows. \<not> row_fires lib p r"
  using assms
  by (simp add: run_pipeline_closed exit_watch_new_def fire_def list_ex_iff row_fires_def cong: sum.case_cong
      split: if_splits)

lemma prefix_takeWhile:
  assumes "xs = pre @ post" and "\<forall>x \<in> set pre. P x"
  shows "prefix pre (takeWhile P xs)"
  using assms by (simp add: takeWhile_append2)

lemma run_stage_prefix:
  assumes "prefix xs ys"
  shows "prefix (ok_events (snd (run_stage st w xs))) (ok_events (snd (run_stage st w ys)))"
  using assms by (auto simp: prefix_def run_stage_append case_prod_unfold)

lemma subseq_map_filter: "subseq xs ys \<Longrightarrow> subseq (List.map_filter f xs) (List.map_filter f ys)"
  by (induction rule: list_emb.induct) (auto simp: List.map_filter_simps split: option.split)

lemma ok_events_closed:
  "ok_events (snd (run_stage (apply_pipeline lib sea p) w xs))
   = List.map_filter (\<lambda>r. case r of Inl _ \<Rightarrow> None | Inr ev \<Rightarrow> event_out lib sea p ev) xs"
  by (induction xs arbitrary: w)
    (auto simp: apply_pipeline_item List.map_filter_simps case_prod_unfold split: option.split sum.split)

lemma forwarded_in_order:
  assumes "forward_to_render (apply_pipeline lib sea p) lossy wakes (fwd_init exit_watch_new c) = (s, fret)"
  shows "subseq (fs_sent s)
      (ok_events (snd (run_stage (apply_pipeline lib sea p) exit_watch_new (concat (map fw_arrived wakes)))))"
    and "\<not> lossy \<Longrightarrow> \<exists>pre. prefix pre (concat (map fw_arrived wakes)) \<and> (\<forall>r \<in> set pre. \<not> row_fires lib p r)
      \<and> fs_sent s = ok_events (snd (run_stage (apply_pipeline lib sea p) exit_watch_new pre))"
proof -
  from forward_loop_rel [OF assms] obtain seen rest outs where
    "concat (map fw_arrived wakes) = seen @ rest"
    "run_stage (apply_pipeline lib sea p) exit_watch_new seen = (fs_watch s, outs)"
    and "subseq (fs_sent s) (ok_events outs)"
    by (auto simp: forward_rel_def fwd_init_def)
  moreover have "prefix seen (seen @ rest)" by simp
  ultimately show "subseq (fs_sent s)
      (ok_events (snd (run_stage (apply_pipeline lib sea p) exit_watch_new (concat (map fw_arrived wakes)))))"
    using run_stage_prefix prefix_imp_subseq subseq_order.trans by (metis snd_conv)
next
  assume "\<not> lossy"
  with assms have "forward_to_render (apply_pipeline lib sea p) False wakes (fwd_init exit_watch_new c) = (s, fret)"
    by simp
  from forward_blocking_uncancelled [OF this] obtain pre post where
    "concat (map fw_arrived wakes) = pre @ post"
    and "fs_sent s = ok_events (snd (run_stage (apply_pipeline lib sea p) exit_watch_new pre))"
    and "pre = [] \<or> \<not> ew_cancelled (fst (run_stage (apply_pipeline lib sea p) exit_watch_new pre))"
    by (auto simp: fwd_init_def)
  then show "\<exists>pre. prefix pre (concat (map fw_arrived wakes)) \<and> (\<forall>r \<in> set pre. \<not> row_fires lib p r)
      \<and> fs_sent s = ok_events (snd (run_stage (apply_pipeline lib sea p) exit_watch_new pre))"
    using pipeline_uncancelled_rows by (intro exI [of _ pre]) (auto simp: prefix_def)
qed

section \<open>A stream that ends is forwarded completely\<close>

text \<open>A wake in which nobody else cancels and the render channel takes what is sent.\<close>

definition calm :: "fwd_wake \<Rightarrow> bool" where
  "calm wk \<longleftrightarrow> \<not> fw_cancelled wk \<and> \<not> fw_cancelled_sending wk \<and> fw_chan wk = ChanOk"

text \<open>Nothing arrives after the raw channel has been closed.\<close>

fun channel_closes :: "fwd_wake list \<Rightarrow> bool" where
  "channel_closes [] \<longleftrightarrow> True"
| "channel_closes (wk # wakes) \<longleftrightarrow>
     (if fw_closed wk then concat (map fw_arrived wakes) = [] else True) \<and> channel_closes wakes"

lemma forward_complete:
  assumes "forward_to_render pipeline lossy wakes s = (s', True)"
    and "list_all calm wakes" and "channel_closes wakes"
    and "\<And>p q. fs_queue s @ concat (map fw_arrived wakes) = p @ q \<Longrightarrow>
      \<not> ew_cancelled (fst (run_stage pipeline (fs_watch s) p))"
  shows "fs_sent s' = fs_sent s @
    ok_events (snd (run_stage pipeline (fs_watch s) (fs_queue s @ concat (map fw_arrived wakes))))"
  using assms
proof (induction wakes arbitrary: s)
  case (Cons wk wakes)
  let ?all = "concat (map fw_arrived wakes)"
  obtain w r rest where p: "pull pipeline (fs_watch s) (fs_queue s @ fw_arrived wk) = (w, r, rest)"
    by (cases "pull pipeline (fs_watch s) (fs_queue s @ fw_arrived wk)") auto
  obtain pre where pre: "fs_queue s @ fw_arrived wk = pre @ rest"
    "run_stage pipeline (fs_watch s) pre = (w, case r of None \<Rightarrow> [] | Some x \<Rightarrow> [x])" "r = None \<longrightarrow> rest = []"
    using pull_run_stage [OF p] by blast
  have rows: "fs_queue s @ concat (map fw_arrived (wk # wakes)) = pre @ rest @ ?all"
    using pre(1) by (metis append.assoc concat.simps(2) list.simps(9))
  have w0: "\<not> ew_cancelled (fs_watch s)" using Cons.prems(4) [of "[]"] by simp
  have w1: "\<not> ew_cancelled w" using Cons.prems(4) [OF rows] pre(2) by simp
  have calm: "\<not> fw_cancelled wk" "\<not> fw_cancelled_sending wk" "fw_chan wk = ChanOk" "list_all calm wakes"
    using Cons.prems(2) by (simp_all add: calm_def [of wk])
  have out: "snd (run_stage pipeline (fs_watch s) (pre @ rest @ ?all))
      = (case r of None \<Rightarrow> [] | Some x \<Rightarrow> [x]) @ snd (run_stage pipeline w (rest @ ?all))"
    using pre(2) by (simp add: run_stage_append [of _ _ pre] case_prod_unfold)
  have un: "\<not> ew_cancelled (fst (run_stage pipeline w q1))" if "rest @ ?all = q1 @ q2" for q1 q2
    using Cons.prems(4) [of "pre @ q1" q2] rows pre(2) that by (simp add: run_stage_append case_prod_unfold)
  have IH: "fs_sent s' = fs_sent s1 @ ok_events (snd (run_stage pipeline w (rest @ ?all)))"
    if "forward_to_render pipeline lossy wakes s1 = (s', True)" "fs_queue s1 = rest" "fs_watch s1 = w" for s1
    using Cons.IH [OF that(1) calm(4)] Cons.prems(3) un that(2,3) by simp
  let ?s1 = "s\<lparr>fs_watch := w, fs_queue := rest\<rparr>"
  show ?case
  proof (cases r)
    case None
    show ?thesis
    proof (cases "fw_closed wk")
      case True
      with Cons.prems(1) p None calm(1) w0 have "s' = ?s1" by (simp add: forward_iter_def)
      moreover have e: "rest @ ?all = []" using True Cons.prems(3) None pre(3) by simp
      ultimately show ?thesis unfolding rows out e by (simp add: None pre(2))
    next
      case False
      with Cons.prems(1) p None calm(1) w0 have "forward_to_render pipeline lossy wakes ?s1 = (s', True)"
        by (simp add: forward_iter_def)
      from IH [OF this] show ?thesis unfolding rows out by (simp add: None)
    qed
  next
    case (Some x)
    obtain s1 go where i: "forward_item lossy wk x ?s1 = (s1, go)" by fastforce
    have s1: "go" "fs_sent s1 = fs_sent s @ ok_events [x]" "fs_queue s1 = rest" "fs_watch s1 = w"
      using i calm w1
      by (cases x; auto simp: forward_item_def split: log_source_error.splits if_splits)+
    from Cons.prems(1) p Some calm(1) w0 i s1(1) have "forward_to_render pipeline lossy wakes s1 = (s', True)"
      by (simp add: forward_iter_def)
    from IH [OF this s1(3,4)] show ?thesis unfolding rows out by (cases x) (simp_all add: Some s1(2))
  qed
qed simp

lemma forward_complete_pipeline:
  assumes "forward_to_render (apply_pipeline lib sea p) lossy wakes (fwd_init exit_watch_new c) = (s, True)"
    and "list_all calm wakes" and "channel_closes wakes"
    and "\<not> list_ex (row_fires lib p) (concat (map fw_arrived wakes))"
  shows "fs_sent s = ok_events (snd (run_stage (apply_pipeline lib sea p) exit_watch_new (concat (map fw_arrived wakes))))"
proof -
  have "\<not> ew_cancelled (fst (run_stage (apply_pipeline lib sea p) exit_watch_new pre))"
    if "concat (map fw_arrived wakes) = pre @ post" for pre post
  proof -
    have "\<not> list_ex (row_fires lib p) pre" using assms(4) that by simp
    then show ?thesis by (simp add: run_pipeline_closed exit_watch_new_def row_fires_def [abs_def])
  qed
  with forward_complete [OF assms(1-3)] show ?thesis by (simp add: fwd_init_def)
qed

section \<open>Where the output is cut\<close>

text \<open>The lines the pipeline makes of rows, row by row.\<close>

definition row_lines :: "json_lib \<Rightarrow> (string \<Rightarrow> u64) \<Rightarrow> pipeline_stages \<Rightarrow> item list \<Rightarrow> log_event list" where
  "row_lines lib sea p = List.map_filter (\<lambda>r. case r of Inl _ \<Rightarrow> None | Inr ev \<Rightarrow> event_out lib sea p ev)"

lemma row_lines_simps [simp]:
  "row_lines lib sea p [] = []"
  "row_lines lib sea p (Inl e # rows) = row_lines lib sea p rows"
  "row_lines lib sea p (Inr ev # rows) =
     (case event_out lib sea p ev of None \<Rightarrow> [] | Some ev' \<Rightarrow> [ev']) @ row_lines lib sea p rows"
  by (simp_all add: row_lines_def List.map_filter_simps split: option.split)

lemma row_lines_append [simp]: "row_lines lib sea p (xs @ ys) = row_lines lib sea p xs @ row_lines lib sea p ys"
  by (simp add: row_lines_def List.map_filter_def)

text \<open>One poll of the pipeline: all rows it takes but the last are dropped.\<close>

lemma pull_rows:
  assumes "pull (apply_pipeline lib sea p) w xs = (w', x, rest)" and "ew_triggered w = ew_cancelled w"
  shows "\<exists>pre. xs = pre @ rest \<and> (x = None \<longrightarrow> rest = [])
    \<and> ew_triggered w' = ew_cancelled w' \<and> (ew_cancelled w' \<longleftrightarrow> ew_cancelled w \<or> list_ex (row_fires lib p) pre)
    \<and> row_lines lib sea p (butlast pre) = []
    \<and> row_lines lib sea p pre = (case x of Some (Inr ev) \<Rightarrow> [ev] | _ \<Rightarrow> [])"
  using assms
proof (induction xs arbitrary: w)
  case (Cons r rs)
  have fire: "ew_triggered (fst (apply_pipeline lib sea p w r)) = ew_cancelled (fst (apply_pipeline lib sea p w r))"
    "ew_cancelled (fst (apply_pipeline lib sea p w r)) \<longleftrightarrow> ew_cancelled w \<or> row_fires lib p r"
    using Cons.prems(2) by (cases r; simp add: apply_pipeline_item row_fires_def fire_def)+
  have out: "snd (apply_pipeline lib sea p w r)
      = (case r of Inl e \<Rightarrow> Some (Inl e) | Inr ev \<Rightarrow> map_option Inr (event_out lib sea p ev))"
    by (simp add: apply_pipeline_item)
  obtain w1 o1 where s: "apply_pipeline lib sea p w r = (w1, o1)" by fastforce
  show ?case
  proof (cases o1)
    case None
    then obtain ev where r: "r = Inr ev" "event_out lib sea p ev = None"
      using out s by (cases r) simp_all
    from Cons.IH [of w1] Cons.prems fire(1) s None obtain pre where
      "ew_triggered w' = ew_cancelled w'"
      "rs = pre @ rest" "x = None \<longrightarrow> rest = []" "ew_cancelled w' \<longleftrightarrow> ew_cancelled w1 \<or> list_ex (row_fires lib p) pre"
      "row_lines lib sea p (butlast pre) = []"
      "row_lines lib sea p pre = (case x of Some (Inr ev) \<Rightarrow> [ev] | _ \<Rightarrow> [])" by auto
    with r fire s show ?thesis by (intro exI [of _ "r # pre"]) auto
  next
    case (Some y)
    with Cons.prems s have "w' = w1" "x = Some y" "rest = rs" by simp_all
    with Some fire out s show ?thesis
      by (intro exI [of _ "[r]"]) (cases r; auto split: option.split)
  qed
qed simp

text \<open>One round of the loop, while nothing has fired.\<close>

lemma forward_iter_rows:
  assumes "forward_iter (apply_pipeline lib sea p) lossy wk s = (s', go)"
    and "\<not> ew_cancelled (fs_watch s)" and "\<not> ew_triggered (fs_watch s)" and "\<not> fw_cancelled wk"
  shows "\<exists>pre rest got. fs_queue s @ fw_arrived wk = pre @ rest \<and> fs_sent s' = fs_sent s @ got
    \<and> ew_triggered (fs_watch s') = ew_cancelled (fs_watch s')
    \<and> (ew_cancelled (fs_watch s') \<longleftrightarrow> list_ex (row_fires lib p) pre)
    \<and> row_lines lib sea p (butlast pre) = [] \<and> length (row_lines lib sea p pre) \<le> 1
    \<and> (go \<longrightarrow> fs_queue s' = rest) \<and> subseq got (row_lines lib sea p pre)
    \<and> (\<not> lossy \<and> list_ex (row_fires lib p) pre \<longrightarrow> got = [])
    \<and> (calm wk \<longrightarrow> (lossy \<or> \<not> list_ex (row_fires lib p) pre \<longrightarrow> got = row_lines lib sea p pre)
         \<and> (go \<or> list_ex (row_fires lib p) pre \<or> fw_closed wk \<and> rest = []))"
proof -
  obtain w x rest where p: "pull (apply_pipeline lib sea p) (fs_watch s) (fs_queue s @ fw_arrived wk) = (w, x, rest)"
    by (cases "pull (apply_pipeline lib sea p) (fs_watch s) (fs_queue s @ fw_arrived wk)") auto
  from pull_rows [OF p] obtain pre where pre:
    "fs_queue s @ fw_arrived wk = pre @ rest" "x = None \<longrightarrow> rest = []"
    "ew_triggered w = ew_cancelled w" "ew_cancelled w \<longleftrightarrow> list_ex (row_fires lib p) pre" "row_lines lib sea p (butlast pre) = []"
    "row_lines lib sea p pre = (case x of Some (Inr ev) \<Rightarrow> [ev] | _ \<Rightarrow> [])"
    using assms(2,3) by auto
  let ?s1 = "s\<lparr>fs_watch := w, fs_queue := rest\<rparr>"
  have iter: "(s', go) = (case x of None \<Rightarrow> (?s1, \<not> fw_closed wk) | Some y \<Rightarrow> forward_item lossy wk y ?s1)"
    using assms p by (cases x) (simp_all add: forward_iter_def)
  consider "x = None" | e where "x = Some (Inl e)" | ev where "x = Some (Inr ev)"
    by (metis option.exhaust sum.exhaust)
  then show ?thesis
  proof cases
    case 1
    with iter pre show ?thesis by (intro exI [of _ pre] exI [of _ rest] exI [of _ "[]"]) auto
  next
    case 2
    then have "fs_sent s' = fs_sent s" "fs_watch s' = w" "fs_queue s' = rest" "go"
      using iter by (cases e; simp add: forward_item_def)+
    with 2 pre show ?thesis by (intro exI [of _ pre] exI [of _ rest] exI [of _ "[]"]) auto
  next
    case 3
    let ?sent = "if lossy then fw_chan wk = ChanOk
      else \<not> fw_cancelled_sending wk \<and> \<not> ew_cancelled w \<and> fw_chan wk \<noteq> ChanClosed"
    have "fs_sent s' = fs_sent s @ (if ?sent then [ev] else [])" "fs_watch s' = w" "fs_queue s' = rest"
      "calm wk \<longrightarrow> go \<or> ew_cancelled w" 
      using iter 3 by (cases "fw_chan wk"; auto simp: forward_item_def forwarded_def calm_def split: if_splits)+
    with 3 pre show ?thesis
      by (intro exI [of _ pre] exI [of _ rest] exI [of _ "if ?sent then [ev] else []"]) (auto simp: calm_def)
  qed
qed


lemma forward_loop_cancelled:
  "ew_cancelled (fs_watch s) \<Longrightarrow> fs_sent (fst (forward_to_render pipeline lossy wakes s)) = fs_sent s"
  by (cases wakes) (simp_all add: forward_iter_def)

lemma takeWhile_none: "\<not> list_ex P xs \<Longrightarrow> takeWhile (\<lambda>x. \<not> P x) (xs @ ys) = xs @ takeWhile (\<lambda>x. \<not> P x) ys"
  "\<not> list_ex P xs \<Longrightarrow> dropWhile (\<lambda>x. \<not> P x) (xs @ ys) = dropWhile (\<lambda>x. \<not> P x) ys"
  by (auto simp: list_ex_iff takeWhile_append2 dropWhile_append2)

lemma split_first:
  assumes "list_ex P xs"
  obtains us x vs where "xs = us @ x # vs" and "\<not> list_ex P us" and "P x"
    and "takeWhile (\<lambda>x. \<not> P x) (xs @ ys) = us" and "dropWhile (\<lambda>x. \<not> P x) (xs @ ys) = x # vs @ ys"
proof -
  from assms obtain us x vs where "xs = us @ x # vs" "P x" "\<forall>u \<in> set us. \<not> P u"
    unfolding list_ex_iff using split_list_first_prop by metis
  then show ?thesis by (intro that [of us x vs]) (auto simp: list_ex_iff takeWhile_append2 dropWhile_append2)
qed

lemma butlast_snoc_Cons: "butlast (us @ x # vs) = us @ butlast (x # vs)"
  by (simp add: butlast_append)

text \<open>What the loop has sent, in terms of the first row that fires.\<close>

lemma forward_loop_rows:
  assumes "forward_to_render (apply_pipeline lib sea p) lossy wakes s = (s', ret)"
    and "\<not> ew_cancelled (fs_watch s)" and "\<not> ew_triggered (fs_watch s)"
    and "rows = fs_queue s @ concat (map fw_arrived wakes)"
  shows "\<exists>got. fs_sent s' = fs_sent s @ got
    \<and> subseq got (row_lines lib sea p (takeWhile (\<lambda>r. \<not> row_fires lib p r) rows)
        @ (if lossy then take 1 (row_lines lib sea p (dropWhile (\<lambda>r. \<not> row_fires lib p r) rows)) else []))
    \<and> (list_all calm wakes \<and> channel_closes wakes \<and> ret \<and> dropWhile (\<lambda>r. \<not> row_fires lib p r) rows \<noteq> [] \<longrightarrow>
        prefix (row_lines lib sea p (takeWhile (\<lambda>r. \<not> row_fires lib p r) rows)
          @ (if lossy then row_lines lib sea p (take 1 (dropWhile (\<lambda>r. \<not> row_fires lib p r) rows)) else [])) got)"
  using assms
proof (induction wakes arbitrary: s rows)
  case Nil
  then show ?case by simp
next
  case (Cons wk wakes)
  let ?lines = "row_lines lib sea p" and ?P = "row_fires lib p" and ?all = "concat (map fw_arrived wakes)"
  obtain s1 go where i: "forward_iter (apply_pipeline lib sea p) lossy wk s = (s1, go)" by fastforce
  show ?case
  proof (cases "fw_cancelled wk")
    case True
    with i Cons.prems(1) have "s' = s" by (auto simp: forward_iter_def)
    then show ?thesis using True by (intro exI [of _ "[]"]) (simp add: calm_def)
  next
    case False
    from forward_iter_rows [OF i Cons.prems(2,3) False] obtain pre rest got where
      1: "fs_queue s @ fw_arrived wk = pre @ rest" "fs_sent s1 = fs_sent s @ got"
        "ew_triggered (fs_watch s1) = ew_cancelled (fs_watch s1)" "ew_cancelled (fs_watch s1) \<longleftrightarrow> list_ex ?P pre"
        "?lines (butlast pre) = []" "length (?lines pre) \<le> 1" "go \<Longrightarrow> fs_queue s1 = rest" "subseq got (?lines pre)"
        "\<not> lossy \<Longrightarrow> list_ex ?P pre \<Longrightarrow> got = []"
        "calm wk \<Longrightarrow> lossy \<or> \<not> list_ex ?P pre \<Longrightarrow> got = ?lines pre"
        "calm wk \<Longrightarrow> go \<or> list_ex ?P pre \<or> fw_closed wk \<and> rest = []"
      by blast
    have rows: "rows = pre @ rest @ ?all" using Cons.prems(4) 1(1) by (metis append.assoc concat.simps(2) list.simps(9))
    show ?thesis
    proof (cases "list_ex ?P pre")
      case fired: True
      obtain us x vs where u: "pre = us @ x # vs" "takeWhile (\<lambda>r. \<not> ?P r) rows = us"
        "dropWhile (\<lambda>r. \<not> ?P r) rows = x # vs @ rest @ ?all"
        using split_first [OF fired, of "rest @ ?all"] rows by metis
      have sent: "fs_sent s' = fs_sent s @ got"
      proof (cases go)
        case True
        with i Cons.prems(1) have "forward_to_render (apply_pipeline lib sea p) lossy wakes s1 = (s', ret)" by simp
        with forward_loop_cancelled [of s1] 1(2,4) fired show ?thesis by (metis fst_conv)
      next
        case False
        with i Cons.prems(1) 1(2) show ?thesis by simp
      qed
      have us: "?lines us = []" using 1(5) by (simp add: u(1) butlast_snoc_Cons)
      then have "?lines pre = ?lines (x # vs)" by (simp add: u(1))
      then have "prefix (?lines pre) (take 1 (?lines (x # vs @ rest @ ?all)))"
        using 1(6) row_lines_append [of lib sea p "x # vs" "rest @ ?all"]
        by (cases "?lines (x # vs)") auto
      moreover have "prefix (?lines (take 1 (x # vs @ rest @ ?all))) (?lines pre)"
        using us row_lines_append [of lib sea p "[x]" vs] by (simp add: u(1))
      ultimately show ?thesis
        using sent us 1(8-10) fired
        by (intro exI [of _ got]) (auto simp: u(2,3) intro: subseq_order.trans prefix_imp_subseq)
    next
      case quiet: False
      note tw = takeWhile_none [OF quiet, of "rest @ ?all", folded rows]
      show ?thesis
      proof (cases go)
        case True
        with i Cons.prems(1) have l: "forward_to_render (apply_pipeline lib sea p) lossy wakes s1 = (s', ret)" by simp
        obtain got2 where got2: "fs_sent s' = fs_sent s1 @ got2"
          "subseq got2 (?lines (takeWhile (\<lambda>r. \<not> ?P r) (rest @ ?all))
            @ (if lossy then take 1 (?lines (dropWhile (\<lambda>r. \<not> ?P r) (rest @ ?all))) else []))"
          "list_all calm wakes \<and> channel_closes wakes \<and> ret \<and> dropWhile (\<lambda>r. \<not> ?P r) (rest @ ?all) \<noteq> [] \<longrightarrow>
            prefix (?lines (takeWhile (\<lambda>r. \<not> ?P r) (rest @ ?all))
              @ (if lossy then ?lines (take 1 (dropWhile (\<lambda>r. \<not> ?P r) (rest @ ?all))) else [])) got2"
          using Cons.IH [OF l, of "rest @ ?all"] 1(3,4,7) True quiet by auto
        have "subseq (got @ got2) (?lines pre @ (?lines (takeWhile (\<lambda>r. \<not> ?P r) (rest @ ?all))
            @ (if lossy then take 1 (?lines (dropWhile (\<lambda>r. \<not> ?P r) (rest @ ?all))) else [])))"
          by (rule list_emb_append_mono [OF 1(8) got2(2)])
        moreover have "got = ?lines pre" if "calm wk" using 1(10) that quiet by blast
        ultimately show ?thesis
          using got2(1,3) 1(2) unfolding tw by (intro exI [of _ "got @ got2"]) simp
      next
        case False
        with i Cons.prems(1) have s': "s' = s1" by simp
        have "subseq got (?lines pre @ zs)" for zs using 1(8) by (rule list_emb_prefix)
        moreover have "rest @ ?all = []" if "calm wk" "channel_closes (wk # wakes)"
          using 1(11) that False quiet by simp
        ultimately show ?thesis
          using s' 1(2) unfolding tw by (intro exI [of _ got]) auto
      qed
    qed
  qed
qed

text \<open>
  C12: an exit trigger cuts the output at the first row that fires.  Without \<open>--lossy\<close> only lines the
  pipeline makes of the rows before it are forwarded, whatever arrives and whoever cancels, so the
  line that ended the run is never shown.  With \<open>--lossy\<close> at most one line more is: the first line
  the pipeline makes of the firing row and the rows behind it.  If nobody else cancels, the render
  channel takes every line and the loop has returned, then all the lines before it have been
  forwarded, and with \<open>--lossy\<close> the line of the firing row too, if the filters let it pass.
\<close>

theorem exit_trigger_cuts_output:
  "let rows = concat (map fw_arrived wakes);
       before = takeWhile (\<lambda>r. \<not> row_fires lib p r) rows;
       from_firing = dropWhile (\<lambda>r. \<not> row_fires lib p r) rows;
       run = (\<lambda>lossy. forward_to_render (apply_pipeline lib sea p) lossy wakes (fwd_init exit_watch_new c))
   in prefix (fs_sent (fst (run False))) (row_lines lib sea p before)
    \<and> subseq (fs_sent (fst (run True))) (row_lines lib sea p before @ take 1 (row_lines lib sea p from_firing))
    \<and> (list_all calm wakes \<and> channel_closes wakes \<and> from_firing \<noteq> [] \<longrightarrow>
        (snd (run False) \<longrightarrow> fs_sent (fst (run False)) = row_lines lib sea p before)
      \<and> (snd (run True) \<and> row_lines lib sea p (take 1 from_firing) \<noteq> [] \<longrightarrow>
          fs_sent (fst (run True)) = row_lines lib sea p before @ row_lines lib sea p (take 1 from_firing)))"
proof -
  define rows where "rows = concat (map fw_arrived wakes)"
  define before where "before = takeWhile (\<lambda>r. \<not> row_fires lib p r) rows"
  define behind where "behind = dropWhile (\<lambda>r. \<not> row_fires lib p r) rows"
  let ?lines = "row_lines lib sea p"
  define run where "run lossy = forward_to_render (apply_pipeline lib sea p) lossy wakes (fwd_init exit_watch_new c)" for lossy
  have loop: "subseq (fs_sent (fst (run lossy))) (?lines before @ (if lossy then take 1 (?lines behind) else []))
      \<and> (list_all calm wakes \<and> channel_closes wakes \<and> snd (run lossy) \<and> behind \<noteq> [] \<longrightarrow>
          prefix (?lines before @ (if lossy then ?lines (take 1 behind) else [])) (fs_sent (fst (run lossy))))" for lossy
    using forward_loop_rows [of lib sea p lossy wakes "fwd_init exit_watch_new c" "fst (run lossy)" "snd (run lossy)" rows]
    unfolding before_def behind_def by (auto simp: run_def rows_def fwd_init_def exit_watch_new_def)
  have "prefix (fs_sent (fst (run False))) (?lines before)"
  proof -
    obtain pre where pre: "prefix pre rows" "\<forall>r \<in> set pre. \<not> row_fires lib p r"
      "fs_sent (fst (run False)) = ?lines pre"
      using forwarded_in_order(2) [of lib sea p False wakes c "fst (run False)" "snd (run False)"]
      by (auto simp: run_def rows_def ok_events_closed row_lines_def)
    then obtain post where "rows = pre @ post" by (auto simp: prefix_def)
    then have "prefix pre before" unfolding before_def using prefix_takeWhile pre(2) by blast
    then show ?thesis unfolding pre(3) by (auto simp: prefix_def)
  qed
  moreover have "fs_sent (fst (run False)) = ?lines before"
    if "list_all calm wakes" "channel_closes wakes" "behind \<noteq> []" "snd (run False)"
    using loop [of False] that prefix_imp_subseq subseq_order.antisym by auto
  moreover have "fs_sent (fst (run True)) = ?lines before @ ?lines (take 1 behind)"
    if h: "list_all calm wakes" "channel_closes wakes" "behind \<noteq> []" "snd (run True)" and shown: "?lines (take 1 behind) \<noteq> []"
  proof -
    obtain r rest where behind: "behind = r # rest" using h(3) by (cases behind) auto
    have "take 1 (?lines behind) = ?lines (take 1 behind)"
      using shown by (cases r) (auto simp: behind split: option.splits)
    then show ?thesis using loop [of True] h prefix_imp_subseq subseq_order.antisym by auto
  qed
  moreover have "subseq (fs_sent (fst (run True))) (?lines before @ take 1 (?lines behind))" using loop [of True] by simp
  ultimately show ?thesis
    unfolding Let_def rows_def [symmetric] before_def [symmetric] behind_def [symmetric] run_def [symmetric] by blast
qed

text \<open>Two rows that fire: without \<open>--lossy\<close> none is shown, with it the first one.\<close>

definition example_firing :: pipeline_stages where
  "example_firing = (builder_build builder_default)\<lparr>pl_exit_on := [\<lambda>line. True]\<rparr>"

definition example_calm :: "item list \<Rightarrow> fwd_wake" where
  "example_calm rows =
     \<lparr>fw_cancelled = False, fw_arrived = rows, fw_closed = False, fw_cancelled_sending = False,
      fw_chan = ChanOk, fw_now_ms = 0\<rparr>"

lemma example_firing_row:
  "row_fires lib example_firing (Inr example_event)"
  "event_out lib sea example_firing example_event = Some example_event"
  by (simp_all add: row_fires_def event_fires_def message_fires_def any_match_def example_firing_def builder_build_def
      builder_default_def event_out_def shown_def keep_line_def transformed_def classified_def colored_def
      needs_color_assign_def needs_json_annotation_def)

theorem exit_trigger_cuts_output_witness:
  "\<forall>lib sea c lossy.
     fs_sent (fst (forward_to_render (apply_pipeline lib sea example_firing) lossy
       [example_calm [Inr example_event, Inr example_event], example_calm []] (fwd_init exit_watch_new c)))
     = (if lossy then [example_event] else [])"
proof (intro allI)
  fix lib sea c lossy
  let ?wakes = "[example_calm [Inr example_event, Inr example_event], example_calm []]"
  have calm: "list_all calm ?wakes" "channel_closes ?wakes" by (simp_all add: calm_def example_calm_def)
  have "snd (forward_to_render (apply_pipeline lib sea example_firing) b ?wakes (fwd_init exit_watch_new c))" for b
    using example_firing_row(1)
    by (cases b) (simp_all add: forward_iter_def fwd_init_def exit_watch_new_def example_calm_def apply_pipeline_item
        forward_item_def forwarded_def fire_def row_fires_def example_firing_row(2))
  with exit_trigger_cuts_output [of ?wakes lib example_firing sea c] calm
  show "fs_sent (fst (forward_to_render (apply_pipeline lib sea example_firing) lossy ?wakes (fwd_init exit_watch_new c)))
     = (if lossy then [example_event] else [])"
    by (simp add: example_calm_def example_firing_row Let_def)
qed

end
