(* ===== verification/Admission.thy ===== *)
theory Admission
  imports Keyed_Store Config
begin

text \<open>
  What the watch loop admits and remembers of a pod: the admission policy
  (\<open>runtime/watch_admission.rs\<close>) and the metadata cache (\<open>runtime/pod_meta_cache.rs\<close>).
\<close>

section \<open>Admission policy (\<open>watch_admission.rs\<close>)\<close>

record watch_admission_policy =
  wa_context_name :: context_name
  wa_pod_regex :: "regex option"
  wa_exclude_pod :: "regex list"
  wa_allowed_ns :: "string set option"
  wa_pod_condition :: "pod_condition_filter option"
  wa_container_incl :: regex
  wa_container_excl :: "regex list"
  wa_container_discovery :: container_discover_opts

definition resolve_allowed_ns :: "string list \<Rightarrow> bool \<Rightarrow> string set option" where
  "resolve_allowed_ns namespaces all_namespaces =
     (if all_namespaces \<or> length namespaces \<le> 1 then None else Some (set namespaces))"

definition admission_try_new ::
  "regex_lib \<Rightarrow> context_name \<Rightarrow> regex option \<Rightarrow> string list \<Rightarrow> string list \<Rightarrow> bool \<Rightarrow> string \<Rightarrow>
     string list \<Rightarrow> container_discover_opts \<Rightarrow> pod_condition_filter option \<Rightarrow>
     string + watch_admission_policy" where
  "admission_try_new regex_new context_name pod_regex exclude_pod namespaces all_namespaces container
     exclude_container container_discovery pod_condition =
     bind_result (collect_results regex_new exclude_pod) (\<lambda>exclude_pod.
     bind_result (regex_new container) (\<lambda>container_incl.
     bind_result (collect_results regex_new exclude_container) (\<lambda>container_excl.
     Inr \<lparr>wa_context_name = context_name, wa_pod_regex = pod_regex, wa_exclude_pod = exclude_pod,
          wa_allowed_ns = resolve_allowed_ns namespaces all_namespaces,
          wa_pod_condition = pod_condition, wa_container_incl = container_incl,
          wa_container_excl = container_excl, wa_container_discovery = container_discovery\<rparr>)))"

definition admit_pod :: "watch_admission_policy \<Rightarrow> pod \<Rightarrow> bool" where
  "admit_pod wa p =
     (case md_name p of
        None \<Rightarrow> False
      | Some name \<Rightarrow>
     (case md_namespace p of
        None \<Rightarrow> False
      | Some ns \<Rightarrow>
          if (case wa_allowed_ns wa of Some allowed \<Rightarrow> ns \<notin> allowed | None \<Rightarrow> False) then False
          else if any_match (wa_exclude_pod wa) name then False
          else if (case wa_pod_regex wa of Some re \<Rightarrow> \<not> re name | None \<Rightarrow> False) then False
          else if (case wa_pod_condition wa of Some cond \<Rightarrow> \<not> pod_matches_condition p cond | None \<Rightarrow> False)
          then False
          else True))"

definition admit_streams :: "watch_admission_policy \<Rightarrow> pod \<Rightarrow> source_key list" where
  "admit_streams wa p =
     filter (\<lambda>k. \<not> any_match (wa_container_excl wa) (sk_container k))
       (filter (\<lambda>k. wa_container_incl wa (sk_container k))
         (keys_from_pod p (wa_context_name wa) (wa_container_discovery wa)))"

definition collect_snapshot :: "watch_admission_policy \<Rightarrow> pod list \<Rightarrow> source_key set" where
  "collect_snapshot wa pods =
     fold (\<lambda>p snap. if \<not> admit_pod wa p then snap
                    else fold insert (admit_streams wa p) snap) pods {}"

lemma fold_insert_set: "fold insert xs A = set xs \<union> A"
  by (induction xs arbitrary: A) auto

lemma collect_snapshot_eq:
  "collect_snapshot wa pods = (\<Union>p \<in> {p \<in> set pods. admit_pod wa p}. set (admit_streams wa p))"
proof -
  have "fold (\<lambda>p snap. if \<not> admit_pod wa p then snap else fold insert (admit_streams wa p) snap) pods A
      = (\<Union>p \<in> {p \<in> set pods. admit_pod wa p}. set (admit_streams wa p)) \<union> A" for A
    by (induction pods arbitrary: A) (auto simp: fold_insert_set)
  then show ?thesis by (simp add: collect_snapshot_def)
qed

lemma finite_collect_snapshot [simp]: "finite (collect_snapshot wa pods)"
  by (simp add: collect_snapshot_eq)

lemma admit_streams_fields:
  "k \<in> set (admit_streams wa p) \<Longrightarrow>
     sk_context k = wa_context_name wa \<and> sk_namespace k = unwrap_or [] (md_namespace p)
     \<and> sk_pod k = unwrap_or [] (md_name p) \<and> md_uid p = Some (sk_uid k)"
  by (auto simp: admit_streams_def dest: keys_from_pod_fields)

lemma admit_pod_named:
  "admit_pod wa p \<Longrightarrow> \<exists>name ns. md_name p = Some name \<and> md_namespace p = Some ns"
  by (auto simp: admit_pod_def split: option.splits)

lemma admitted_stream_locator:
  assumes "admit_pod wa p" and "k \<in> set (admit_streams wa p)"
  shows "try_from_pod (wa_context_name wa) p = Some (from_source_key k)"
  using admit_pod_named [OF assms(1)] admit_streams_fields [OF assms(2)]
  by (auto simp: try_from_pod_Some_iff from_source_key_def)

text \<open>
  C19: the policy built for a run admits a pod exactly when it is named and namespaced, lies in
  one of the requested namespaces when there are several and no \<open>-A\<close> (one namespace is scoped
  by the server), matches no \<open>--exclude-pod\<close> pattern, matches the query's name regex and the
  \<open>--condition\<close> if there is one; and of its streams exactly those whose container matches
  \<open>--container\<close> and no \<open>--exclude-container\<close> pattern.
\<close>

theorem admission_exact:
  assumes "admission_try_new regex_new context pod_regex exclude_pod namespaces all_ns container
      exclude_container disc cond = Inr wa"
  shows "(admit_pod wa p \<longleftrightarrow>
      (\<exists>name ns. md_name p = Some name \<and> md_namespace p = Some ns
        \<and> (all_ns \<or> length namespaces \<le> 1 \<or> ns \<in> set namespaces)
        \<and> (\<nexists>pat re. pat \<in> set exclude_pod \<and> regex_new pat = Inr re \<and> re name)
        \<and> (case pod_regex of None \<Rightarrow> True | Some re \<Rightarrow> re name)
        \<and> (case cond of None \<Rightarrow> True | Some f \<Rightarrow> pod_matches_condition p f)))
    \<and> (\<exists>incl. regex_new container = Inr incl
        \<and> set (admit_streams wa p) = {k \<in> set (keys_from_pod p context disc). incl (sk_container k)
            \<and> (\<nexists>pat re. pat \<in> set exclude_container \<and> regex_new pat = Inr re \<and> re (sk_container k))})"
proof -
  from assms obtain ep incl ec where
    e: "map regex_new exclude_pod = map Inr ep" "regex_new container = Inr incl"
      "map regex_new exclude_container = map Inr ec"
    and wa: "wa = \<lparr>wa_context_name = context, wa_pod_regex = pod_regex, wa_exclude_pod = ep,
          wa_allowed_ns = resolve_allowed_ns namespaces all_ns,
          wa_pod_condition = cond, wa_container_incl = incl,
          wa_container_excl = ec, wa_container_discovery = disc\<rparr>"
    by (auto simp: admission_try_new_def bind_result_Inr_iff collect_results_map)
  have m: "any_match res x \<longleftrightarrow> (\<exists>pat re. pat \<in> set pats \<and> regex_new pat = Inr re \<and> re x)"
    if "map regex_new pats = map Inr res" for pats res x
  proof -
    have "length pats = length res" using arg_cong [OF that, of length] by simp
    then show ?thesis
      using that
    proof (induction pats res rule: list_induct2)
      case (Cons a pa b bs)
      then have "any_match (b # bs) x \<longleftrightarrow> b x \<or> (\<exists>pat re. pat \<in> set pa \<and> regex_new pat = Inr re \<and> re x)"
        by (simp add: any_match_def)
      with Cons.prems show ?case by (metis list.set_intros list.simps(9) list.inject set_ConsD sum.inject(2))
    qed (simp add: any_match_def)
  qed
  have pods: "admit_pod wa p \<longleftrightarrow>
      (\<exists>name ns. md_name p = Some name \<and> md_namespace p = Some ns
        \<and> (all_ns \<or> length namespaces \<le> 1 \<or> ns \<in> set namespaces) \<and> \<not> any_match ep name
        \<and> (case pod_regex of None \<Rightarrow> True | Some re \<Rightarrow> re name)
        \<and> (case cond of None \<Rightarrow> True | Some f \<Rightarrow> pod_matches_condition p f))"
    unfolding wa admit_pod_def resolve_allowed_ns_def
    by (cases "md_name p"; cases "md_namespace p"; cases pod_regex; cases cond) simp_all
  have streams: "set (admit_streams wa p) = {k \<in> set (keys_from_pod p context disc).
      incl (sk_container k) \<and> \<not> any_match ec (sk_container k)}"
    unfolding wa admit_streams_def by auto
  show ?thesis
    unfolding pods streams m [OF e(1)] m [OF e(3)] using e(2) by blast
qed

theorem admission_exact_witness:
  "case admission_try_new (\<lambda>pat. Inr (\<lambda>s. s = pat)) ''ctx'' None [''bad''] [''a'', ''b''] False ''app'' []
      container_discover_default None of
     Inl _ \<Rightarrow> False
   | Inr wa \<Rightarrow> \<not> admit_pod wa \<lparr>md_name = Some ''bad'', md_namespace = Some ''a'', md_uid = Some ''u'',
                md_labels = None, pod_spec = None, pod_status = None\<rparr>
             \<and> admit_pod wa \<lparr>md_name = Some ''good'', md_namespace = Some ''a'', md_uid = Some ''u'',
                md_labels = None, pod_spec = None, pod_status = None\<rparr>"
proof (cases "admission_try_new (\<lambda>pat. Inr (\<lambda>s. s = pat)) ''ctx'' None [''bad''] [''a'', ''b''] False ''app'' []
      container_discover_default None")
  case (Inl e)
  then show ?thesis by (simp add: admission_try_new_def)
next
  case (Inr wa)
  from conjunct1 [OF admission_exact [OF Inr]] show ?thesis by (simp add: Inr)
qed

section \<open>Metadata cache (\<open>pod_meta_cache.rs\<close>)\<close>

type_synonym pod_meta_cache = "(pod_locator, pod_meta_snapshot) sharded"

definition meta_new :: pod_meta_cache where
  "meta_new = sharded_new"

definition meta_get :: "(pod_locator \<Rightarrow> u64) \<Rightarrow> pod_meta_cache \<Rightarrow> pod_locator \<Rightarrow> pod_meta_snapshot option" where
  "meta_get hash cache loc = sharded_get hash cache loc"

text \<open>The shard is read first and written only if its entry differs, checked again under the write lock.\<close>

definition update_from_pod ::
  "(pod_locator \<Rightarrow> u64) \<Rightarrow> context_name \<Rightarrow> pod \<Rightarrow> pod_meta_cache \<Rightarrow> pod_meta_cache" where
  "update_from_pod hash context p cache =
     (case try_from_pod context p of
        None \<Rightarrow> cache
      | Some locator \<Rightarrow>
          (let snapshot = pod_meta_snapshot_from_pod p in
           if meta_get hash cache locator = Some snapshot then cache
           else sharded_insert hash locator snapshot cache))"

definition meta_clear :: "pod_meta_cache \<Rightarrow> pod_meta_cache" where
  "meta_clear cache = sharded_clear cache"

definition meta_prune :: "pod_locator set \<Rightarrow> pod_meta_cache \<Rightarrow> pod_meta_cache" where
  "meta_prune keep cache = sharded_retain (\<lambda>loc. loc \<in> keep) cache"

definition meta_remove_pod ::
  "(pod_locator \<Rightarrow> u64) \<Rightarrow> context_name \<Rightarrow> pod \<Rightarrow> pod_meta_cache \<Rightarrow> pod_meta_cache" where
  "meta_remove_pod hash context p cache =
     (case try_from_pod context p of None \<Rightarrow> cache | Some locator \<Rightarrow> sharded_remove hash locator cache)"

definition meta_lookup :: "(pod_locator \<Rightarrow> u64) \<Rightarrow> pod_meta_cache \<Rightarrow> source_key \<Rightarrow> pod_meta_snapshot" where
  "meta_lookup hash cache key = unwrap_or pod_meta_default (meta_get hash cache (from_source_key key))"

interpretation metas: keyed_store
  meta_new "meta_get hash" "sharded_insert hash" "sharded_remove hash" sharded_retain
  "sharded_invar hash" for hash
  unfolding meta_new_def meta_get_def [abs_def] by (rule sharded.keyed_store_axioms)

lemma update_from_pod_put:
  "update_from_pod hash context p cache =
     (case try_from_pod context p of None \<Rightarrow> cache
      | Some loc \<Rightarrow> metas.put_if_changed hash loc (pod_meta_snapshot_from_pod p) cache)"
  by (simp add: update_from_pod_def metas.put_if_changed_def Let_def split: option.split)

lemma update_from_pod:
  assumes "sharded_invar hash cache"
  shows "sharded_invar hash (update_from_pod hash context p cache)"
    and "meta_get hash (update_from_pod hash context p cache) =
      (case try_from_pod context p of None \<Rightarrow> meta_get hash cache
       | Some loc \<Rightarrow> (meta_get hash cache)(loc \<mapsto> pod_meta_snapshot_from_pod p))"
  using assms by (simp_all add: update_from_pod_put metas.put_if_changed split: option.split)

lemma meta_remove_pod:
  assumes "sharded_invar hash cache"
  shows "sharded_invar hash (meta_remove_pod hash context p cache)"
    and "meta_get hash (meta_remove_pod hash context p cache) =
      (case try_from_pod context p of None \<Rightarrow> meta_get hash cache
       | Some loc \<Rightarrow> (meta_get hash cache)(loc := None))"
  using assms by (simp_all add: meta_remove_pod_def metas.invars metas.gets split: option.split)

lemma meta_clear:
  assumes "sharded_invar hash cache"
  shows "sharded_invar hash (meta_clear cache)" and "meta_get hash (meta_clear cache) loc = None"
  using sharded_clear [OF assms] by (simp_all add: meta_clear_def meta_get_def)

lemma meta_prune:
  assumes "sharded_invar hash cache"
  shows "sharded_invar hash (meta_prune keep cache)"
    and "meta_get hash (meta_prune keep cache) loc = (if loc \<in> keep then meta_get hash cache loc else None)"
  using assms by (simp_all add: meta_prune_def metas.invars metas.gets)

text \<open>The pods of a snapshot, recorded one after the other: for every locator the last pod wins.\<close>

lemma update_all:
  assumes "sharded_invar hash cache"
  shows "sharded_invar hash (fold (update_from_pod hash context) pods cache)
    \<and> (\<forall>loc. (\<exists>p \<in> set pods. try_from_pod context p = Some loc) \<longrightarrow>
        (\<exists>p \<in> set pods. try_from_pod context p = Some loc
           \<and> meta_get hash (fold (update_from_pod hash context) pods cache) loc
             = Some (pod_meta_snapshot_from_pod p)))"
  using assms
proof (induction pods rule: rev_induct)
  case (snoc q pods)
  then show ?case
    by (auto simp: update_from_pod split: option.splits)
qed simp

end
