(* ===== verification/Lifecycle.thy ===== *)
theory Lifecycle
  imports Admission Cursor_Store
begin

text \<open>
  The stream registry and the watch loop: \<open>runtime/registry.rs\<close>, \<open>runtime/pod_lifecycle.rs\<close> and
  \<open>runtime/watch.rs\<close>.  The world holds the state the watch task owns (registry, pending pods)
  and what it shares with other tasks (metadata cache, cursors, cancellation tokens, the
  commands sent to the mux, the attach tasks spawned).
\<close>

section \<open>State\<close>

text \<open>
  Cancellation tokens are numbered as they are created; \<open>w_cancelled\<close> are the cancelled ones.
  All of them are children of the root token, whose cancellation ends the watch loop.
\<close>

record registry =
  rg_active :: "source_key set"
  rg_tokens :: "source_key \<rightharpoonup> nat"

record world =
  w_registry :: registry
  w_pending :: "pod list"
  w_meta :: pod_meta_cache
  w_cursors :: cursor_store
  w_mux_open :: bool
  w_mux_removes :: "source_key list"
  w_cancelled :: "nat set"
  w_next_token :: nat
  w_spawned :: "(source_key \<times> nat) list"

text \<open>
  The context of the watch task.  A \<open>HashSet\<close> is iterated in an order of its own, given here by
  a rank of the keys.
\<close>

record watch_ctx =
  wc_admission :: watch_admission_policy
  wc_meta_hash :: "pod_locator \<Rightarrow> u64"
  wc_cursor_hash :: "source_key \<Rightarrow> u64"
  wc_rank :: "source_key \<Rightarrow> nat"

definition hash_iter :: "(source_key \<Rightarrow> nat) \<Rightarrow> source_key set \<Rightarrow> source_key list" where
  "hash_iter rnk A = sort_key rnk (sorted_list_of_set A)"

lemma set_hash_iter [simp]: "finite A \<Longrightarrow> set (hash_iter rnk A) = A"
  by (simp add: hash_iter_def)

definition registry_new :: registry where
  "registry_new = \<lparr>rg_active = {}, rg_tokens = Map.empty\<rparr>"

definition world_new :: world where
  "world_new = \<lparr>w_registry = registry_new, w_pending = [], w_meta = meta_new,
     w_cursors = cursor_store_new, w_mux_open = True, w_mux_removes = [], w_cancelled = {},
     w_next_token = 0, w_spawned = []\<rparr>"

abbreviation active :: "world \<Rightarrow> source_key set" where
  "active w \<equiv> rg_active (w_registry w)"

abbreviation tokens :: "world \<Rightarrow> source_key \<rightharpoonup> nat" where
  "tokens w \<equiv> rg_tokens (w_registry w)"

section \<open>Registry operations (\<open>registry.rs\<close>)\<close>

definition matches_locator :: "watch_ctx \<Rightarrow> string \<Rightarrow> string \<Rightarrow> string option \<Rightarrow> source_key \<Rightarrow> bool" where
  "matches_locator ctx namespace pod_name uid k \<longleftrightarrow>
     sk_context k = wa_context_name (wc_admission ctx) \<and> sk_namespace k = namespace
     \<and> sk_pod k = pod_name \<and> (case uid of None \<Rightarrow> True | Some u \<Rightarrow> sk_uid k = u)"

definition keys_for_pod_locator ::
  "watch_ctx \<Rightarrow> string \<Rightarrow> string \<Rightarrow> string option \<Rightarrow> world \<Rightarrow> source_key list" where
  "keys_for_pod_locator ctx namespace pod_name uid w =
     filter (matches_locator ctx namespace pod_name uid) (hash_iter (wc_rank ctx) (active w))"

definition drop_key :: "watch_ctx \<Rightarrow> source_key \<Rightarrow> world \<Rightarrow> world" where
  "drop_key ctx k w =
     w\<lparr>w_registry := \<lparr>rg_active = active w - {k}, rg_tokens = (tokens w)(k := None)\<rparr>,
       w_cancelled := (case tokens w k of Some t \<Rightarrow> insert t (w_cancelled w) | None \<Rightarrow> w_cancelled w),
       w_cursors := cursor_forget (wc_cursor_hash ctx) k (w_cursors w),
       w_mux_removes := (if w_mux_open w then w_mux_removes w @ [k] else w_mux_removes w)\<rparr>"

definition drop_keys :: "watch_ctx \<Rightarrow> source_key list \<Rightarrow> world \<Rightarrow> world" where
  "drop_keys ctx keys w = fold (drop_key ctx) keys w"

definition add_key :: "source_key \<Rightarrow> world \<Rightarrow> world" where
  "add_key key w =
     (if key \<notin> active w
      then w\<lparr>w_registry := \<lparr>rg_active = insert key (active w), rg_tokens = (tokens w)(key \<mapsto> w_next_token w)\<rparr>,
             w_next_token := w_next_token w + 1,
             w_spawned := w_spawned w @ [(key, w_next_token w)]\<rparr>
      else w)"

definition remove_pod :: "watch_ctx \<Rightarrow> pod \<Rightarrow> world \<Rightarrow> world" where
  "remove_pod ctx p w =
     drop_keys ctx
       (keys_for_pod_locator ctx (unwrap_or [] (md_namespace p)) (unwrap_or [] (md_name p)) (md_uid p) w) w"

definition apply_diff :: "watch_ctx \<Rightarrow> reconcile_diff \<Rightarrow> world \<Rightarrow> world" where
  "apply_diff ctx diff w = fold add_key (rd_to_add diff) (drop_keys ctx (rd_to_drop diff) w)"

definition reconcile_snapshot :: "watch_ctx \<Rightarrow> source_key set \<Rightarrow> world \<Rightarrow> world" where
  "reconcile_snapshot ctx snapshot w = apply_diff ctx (reconcile (active w) snapshot) w"

definition reconcile_pod :: "watch_ctx \<Rightarrow> pod \<Rightarrow> source_key set \<Rightarrow> world \<Rightarrow> world" where
  "reconcile_pod ctx p desired w =
     (let current = set (keys_for_pod_locator ctx (unwrap_or [] (md_namespace p))
                           (unwrap_or [] (md_name p)) None w)
      in apply_diff ctx (reconcile current desired) w)"

section \<open>Lifecycle handlers (\<open>pod_lifecycle.rs\<close>)\<close>

abbreviation ctx_name :: "watch_ctx \<Rightarrow> context_name" where
  "ctx_name ctx \<equiv> wa_context_name (wc_admission ctx)"

definition on_delete :: "watch_ctx \<Rightarrow> pod \<Rightarrow> world \<Rightarrow> world" where
  "on_delete ctx p w =
     remove_pod ctx p (w\<lparr>w_meta := meta_remove_pod (wc_meta_hash ctx) (ctx_name ctx) p (w_meta w)\<rparr>)"

definition on_apply :: "watch_ctx \<Rightarrow> pod \<Rightarrow> world \<Rightarrow> world" where
  "on_apply ctx p w =
     (if \<not> admit_pod (wc_admission ctx) p then on_delete ctx p w
      else
        reconcile_pod ctx p (set (admit_streams (wc_admission ctx) p))
          (w\<lparr>w_meta := update_from_pod (wc_meta_hash ctx) (ctx_name ctx) p (w_meta w)\<rparr>))"

definition on_init_begin :: "world \<Rightarrow> world" where
  "on_init_begin w = w\<lparr>w_pending := [], w_meta := meta_clear (w_meta w)\<rparr>"

definition on_init_apply :: "watch_ctx \<Rightarrow> pod \<Rightarrow> world \<Rightarrow> world" where
  "on_init_apply ctx p w =
     w\<lparr>w_meta := update_from_pod (wc_meta_hash ctx) (ctx_name ctx) p (w_meta w),
       w_pending := w_pending w @ [p]\<rparr>"

definition on_init_snapshot :: "watch_ctx \<Rightarrow> pod list \<Rightarrow> world \<Rightarrow> world" where
  "on_init_snapshot ctx pods w =
     (let w1 = w\<lparr>w_meta := fold (update_from_pod (wc_meta_hash ctx) (ctx_name ctx)) pods (w_meta w)\<rparr>;
          snap = collect_snapshot (wc_admission ctx) pods;
          keep = from_source_key ` snap
      in reconcile_snapshot ctx snap (w1\<lparr>w_meta := meta_prune keep (w_meta w1)\<rparr>))"

definition on_init_done :: "watch_ctx \<Rightarrow> world \<Rightarrow> world" where
  "on_init_done ctx w = on_init_snapshot ctx (w_pending w) (w\<lparr>w_pending := []\<rparr>)"

section \<open>The watch loop (\<open>watch.rs\<close>)\<close>

datatype watch_event = EvDelete pod | EvApply pod | EvInit | EvInitApply pod | EvInitDone

fun handle_event :: "watch_ctx \<Rightarrow> watch_event \<Rightarrow> world \<Rightarrow> world" where
  "handle_event ctx (EvDelete p) w = on_delete ctx p w"
| "handle_event ctx (EvApply p) w = on_apply ctx p w"
| "handle_event ctx EvInit w = on_init_begin w"
| "handle_event ctx (EvInitApply p) w = on_init_apply ctx p w"
| "handle_event ctx EvInitDone w = on_init_done ctx w"

text \<open>What the select of the loop yields: cancellation, the end of the watcher, an error, an event.\<close>

datatype watch_wake = WakeCancelled | WakeEnd | WakeErr string | WakeEvent watch_event

fun watch_loop :: "watch_ctx \<Rightarrow> watch_wake list \<Rightarrow> world \<Rightarrow> world" where
  "watch_loop ctx [] w = w"
| "watch_loop ctx (WakeCancelled # wakes) w = w"
| "watch_loop ctx (WakeEnd # wakes) w = w"
| "watch_loop ctx (WakeErr e # wakes) w = watch_loop ctx wakes w"
| "watch_loop ctx (WakeEvent ev # wakes) w = watch_loop ctx wakes (handle_event ctx ev w)"

section \<open>Effect of the registry operations\<close>

lemma drop_keys_simps [simp]:
  "drop_keys ctx [] w = w" "drop_keys ctx (k # ks) w = drop_keys ctx ks (drop_key ctx k w)"
  by (simp_all add: drop_keys_def)

lemma drop_keys_effect [runtime_simps]:
  "active (drop_keys ctx ks w) = active w - set ks"
  "tokens (drop_keys ctx ks w) k = (if k \<in> set ks then None else tokens w k)"
  "w_meta (drop_keys ctx ks w) = w_meta w" "w_pending (drop_keys ctx ks w) = w_pending w"
  "w_spawned (drop_keys ctx ks w) = w_spawned w" "w_next_token (drop_keys ctx ks w) = w_next_token w"
  "w_mux_removes (drop_keys ctx ks w) = w_mux_removes w @ (if w_mux_open w then ks else [])"
  by (induction ks arbitrary: w) (auto simp: drop_key_def)

lemma add_keys_effect [runtime_simps]:
  "active (fold add_key ks w) = active w \<union> set ks"
  "k \<in> active w \<or> k \<notin> set ks \<Longrightarrow> tokens (fold add_key ks w) k = tokens w k"
  "w_meta (fold add_key ks w) = w_meta w" "w_pending (fold add_key ks w) = w_pending w"
  "w_cursors (fold add_key ks w) = w_cursors w" "w_mux_removes (fold add_key ks w) = w_mux_removes w"
  "w_cancelled (fold add_key ks w) = w_cancelled w"
  by (induction ks arbitrary: w) (auto simp: add_key_def)

lemma add_keys_spawned:
  "(k, t) \<in> set (w_spawned (fold add_key ks w)) \<Longrightarrow> (k, t) \<in> set (w_spawned w) \<or> k \<in> set ks"
proof (induction ks arbitrary: w)
  case (Cons a ks)
  then have "(k, t) \<in> set (w_spawned (add_key a w)) \<or> k \<in> set ks" by simp
  then show ?case by (auto simp: add_key_def split: if_splits)
qed simp

lemma apply_diff_effect:
  assumes "finite current" and "finite desired" and "current \<subseteq> active w"
  shows "active (apply_diff ctx (reconcile current desired) w) = (active w - current) \<union> desired \<union> (current \<inter> desired)"
    and "k \<in> active w \<Longrightarrow> k \<notin> current \<or> k \<in> desired \<Longrightarrow>
      tokens (apply_diff ctx (reconcile current desired) w) k = tokens w k"
    and "w_meta (apply_diff ctx (reconcile current desired) w) = w_meta w"
    and "w_pending (apply_diff ctx (reconcile current desired) w) = w_pending w"
    and "w_mux_removes (apply_diff ctx (reconcile current desired) w)
      = w_mux_removes w @ (if w_mux_open w then rd_to_drop (reconcile current desired) else [])"
    and "(k, t) \<in> set (w_spawned (apply_diff ctx (reconcile current desired) w)) \<Longrightarrow>
      (k, t) \<in> set (w_spawned w) \<or> k \<in> desired"
  using assms
  by (auto simp: apply_diff_def runtime_simps reconcile_sets dest!: add_keys_spawned)

section \<open>Invariant\<close>

text \<open>
  The active keys are those with a token, tokens are fresh, and an attach task is live (its
  token is not cancelled) exactly if its token is the one registered for its key.
\<close>

definition world_ok :: "watch_ctx \<Rightarrow> world \<Rightarrow> bool" where
  "world_ok ctx w \<longleftrightarrow>
     finite (active w) \<and> dom (tokens w) = active w
     \<and> map snd (w_spawned w) = [0 ..< w_next_token w]
     \<and> w_cancelled w \<subseteq> {..< w_next_token w}
     \<and> (\<forall>k t. tokens w k = Some t \<longleftrightarrow> (k, t) \<in> set (w_spawned w) \<and> t \<notin> w_cancelled w)
     \<and> sharded_invar (wc_meta_hash ctx) (w_meta w) \<and> sharded_invar (wc_cursor_hash ctx) (w_cursors w)"

lemma world_okD:
  assumes "world_ok ctx w"
  shows "finite (active w)" and "dom (tokens w) = active w"
    and "map snd (w_spawned w) = [0 ..< w_next_token w]"
    and "w_cancelled w \<subseteq> {..< w_next_token w}"
    and "tokens w k = Some t \<longleftrightarrow> (k, t) \<in> set (w_spawned w) \<and> t \<notin> w_cancelled w"
    and "sharded_invar (wc_meta_hash ctx) (w_meta w)" and "sharded_invar (wc_cursor_hash ctx) (w_cursors w)"
  using assms by (auto simp: world_ok_def)

lemma spawned_token_unique:
  assumes "world_ok ctx w" and "(k, t) \<in> set (w_spawned w)" and "(k', t) \<in> set (w_spawned w)"
  shows "k = k'"
proof -
  have "distinct (map snd (w_spawned w))" using world_okD(3) [OF assms(1)] by simp
  then have "inj_on snd (set (w_spawned w))" by (simp add: distinct_map)
  then show ?thesis using inj_onD [of snd _ "(k, t)" "(k', t)"] assms(2,3) by simp
qed

lemma world_ok_new: "world_ok ctx world_new"
  using metas.invar_new cursors.invar_new
  by (simp add: world_ok_def world_new_def registry_new_def)

lemma world_ok_drop_key:
  assumes "world_ok ctx w"
  shows "world_ok ctx (drop_key ctx k w)"
proof -
  note ok = world_okD [OF assms]
  let ?w = "drop_key ctx k w"
  have "tokens ?w k' = Some t \<longleftrightarrow> (k', t) \<in> set (w_spawned ?w) \<and> t \<notin> w_cancelled ?w" for k' t
  proof (cases "tokens w k")
    case None
    then show ?thesis using ok(5) [of k t] ok(5) [of k' t] by (cases "k' = k") (simp_all add: drop_key_def)
  next
    case (Some t0)
    then have t0: "(k, t0) \<in> set (w_spawned w)" "t0 \<notin> w_cancelled w" using ok(5) by auto
    show ?thesis
    proof (cases "k' = k")
      case True
      then show ?thesis using Some ok(5) [of k t] by (auto simp: drop_key_def)
    next
      case False
      then have "(k', t0) \<notin> set (w_spawned w)" using spawned_token_unique [OF assms t0(1), of k'] by blast
      then have "t = t0 \<Longrightarrow> (k', t) \<notin> set (w_spawned w)" by simp
      with False Some ok(5) [of k' t] show ?thesis by (cases "t = t0") (simp_all add: drop_key_def)
    qed
  qed
  moreover have "w_cancelled ?w \<subseteq> {..< w_next_token ?w}"
  proof (cases "tokens w k")
    case (Some t0)
    then have "(k, t0) \<in> set (w_spawned w)" using ok(5) by auto
    then have "t0 \<in> set (map snd (w_spawned w))" by force
    then have "t0 < w_next_token w" unfolding ok(3) by simp
    with Some ok(4) show ?thesis by (simp add: drop_key_def)
  qed (use ok(4) in \<open>simp add: drop_key_def\<close>)
  ultimately show ?thesis
    using ok(1-3,6,7)
    by (simp add: world_ok_def) (auto simp: drop_key_def cursor_forget_def cursors.invar_del)
qed

lemma world_ok_add_key:
  assumes "world_ok ctx w"
  shows "world_ok ctx (add_key k w)"
proof (cases "k \<in> active w")
  case False
  note ok = world_okD [OF assms]
  from False ok(2) have n: "tokens w k = None" by (auto simp: domIff)
  have fresh: "(k', w_next_token w) \<notin> set (w_spawned w)" for k'
  proof
    assume "(k', w_next_token w) \<in> set (w_spawned w)"
    then have "w_next_token w \<in> set (map snd (w_spawned w))" by force
    then show False unfolding ok(3) by simp
  qed
  have c: "w_next_token w \<notin> w_cancelled w" using ok(4) by auto
  have "tokens (add_key k w) k' = Some t \<longleftrightarrow>
      (k', t) \<in> set (w_spawned (add_key k w)) \<and> t \<notin> w_cancelled (add_key k w)" for k' t
    using False n fresh [of k'] c ok(5) [of k' t]
    by (cases "k' = k"; cases "t = w_next_token w") (simp_all add: add_key_def)
  moreover have "w_cancelled w \<subseteq> {..< Suc (w_next_token w)}" using ok(4) by auto
  ultimately show ?thesis
    using False ok(1,2,3,6,7) by (simp add: world_ok_def) (simp add: add_key_def)
qed (use assms in \<open>simp add: add_key_def\<close>)

lemma world_ok_drop_keys: "world_ok ctx w \<Longrightarrow> world_ok ctx (drop_keys ctx ks w)"
  by (induction ks arbitrary: w) (simp_all add: world_ok_drop_key)

lemma world_ok_add_keys: "world_ok ctx w \<Longrightarrow> world_ok ctx (fold add_key ks w)"
  by (induction ks arbitrary: w) (simp_all add: world_ok_add_key)

lemma world_ok_meta:
  "world_ok ctx w \<Longrightarrow> sharded_invar (wc_meta_hash ctx) m \<Longrightarrow> world_ok ctx (w\<lparr>w_meta := m\<rparr>)"
  "world_ok ctx w \<Longrightarrow> world_ok ctx (w\<lparr>w_pending := ps\<rparr>)"
  by (simp_all add: world_ok_def)

lemma world_ok_apply_diff: "world_ok ctx w \<Longrightarrow> world_ok ctx (apply_diff ctx diff w)"
  by (simp add: apply_diff_def world_ok_drop_keys world_ok_add_keys)

lemma world_ok_handle_event:
  assumes "world_ok ctx w"
  shows "world_ok ctx (handle_event ctx ev w)"
proof -
  note m = world_okD(6) [OF assms]
  have d: "world_ok ctx (on_delete ctx p w)" for p
    by (simp add: on_delete_def remove_pod_def world_ok_drop_keys world_ok_meta assms meta_remove_pod m)
  show ?thesis
  proof (cases ev)
    case (EvApply p)
    then show ?thesis
      by (simp add: on_apply_def d reconcile_pod_def Let_def world_ok_apply_diff world_ok_meta assms update_from_pod m)
  next
    case EvInitDone
    then show ?thesis
      by (simp add: on_init_done_def on_init_snapshot_def Let_def reconcile_snapshot_def world_ok_apply_diff
          world_ok_meta assms meta_prune update_all m)
  qed (simp_all add: d on_init_begin_def on_init_apply_def world_ok_meta assms meta_clear update_from_pod m)
qed

section \<open>Reachable worlds\<close>

text \<open>
  The watch task handles an event, or another task acts in between: the cursor task records
  an update, or the mux goes away (its channel closes).
\<close>

inductive world_step :: "watch_ctx \<Rightarrow> world \<Rightarrow> world \<Rightarrow> bool" for ctx where
  StepWatch: "world_step ctx w (handle_event ctx ev w)"
| StepCursor: "world_step ctx w (w\<lparr>w_cursors := cursor_record (wc_cursor_hash ctx) key ts (w_cursors w)\<rparr>)"
| StepMuxClosed: "world_step ctx w (w\<lparr>w_mux_open := False\<rparr>)"

inductive_cases world_stepE: "world_step ctx w w'"

inductive reachable :: "watch_ctx \<Rightarrow> world \<Rightarrow> bool" for ctx where
  Reach_new: "reachable ctx world_new"
| Reach_step: "reachable ctx w \<Longrightarrow> world_step ctx w w' \<Longrightarrow> reachable ctx w'"

lemma world_ok_step: "world_step ctx w w' \<Longrightarrow> world_ok ctx w \<Longrightarrow> world_ok ctx w'"
  by (erule world_stepE)
    (simp_all add: world_ok_handle_event, simp_all add: world_ok_def cursors.invar_put)

lemma world_ok_reachable: "reachable ctx w \<Longrightarrow> world_ok ctx w"
  by (induction rule: reachable.induct) (auto intro: world_ok_new world_ok_step)

text \<open>A pod with one container, for the witnesses.\<close>

definition example_pod :: pod where
  "example_pod =
     \<lparr>md_name = Some ''web'', md_namespace = Some ''default'', md_uid = Some ''u1'',
      md_labels = Some [(''app'', ''web'')],
      pod_spec = Some \<lparr>ps_containers = [''app''], ps_init_containers = None,
                        ps_ephemeral_containers = None, ps_node_name = Some ''n1''\<rparr>,
      pod_status = None\<rparr>"

definition example_ctx :: watch_ctx where
  "example_ctx =
     \<lparr>wc_admission = \<lparr>wa_context_name = ''ctx'', wa_pod_regex = None, wa_exclude_pod = [],
         wa_allowed_ns = None, wa_pod_condition = None, wa_container_incl = (\<lambda>_. True),
         wa_container_excl = [], wa_container_discovery = container_discover_default\<rparr>,
      wc_meta_hash = (\<lambda>_. 3), wc_cursor_hash = (\<lambda>_. 5), wc_rank = (\<lambda>_. 0)\<rparr>"

lemma example_streams:
  "admit_pod (wc_admission example_ctx) example_pod"
  "admit_streams (wc_admission example_ctx) example_pod = [SourceKey ''ctx'' ''default'' ''web'' ''app'' ''u1'']"
  by (simp_all add: admit_pod_def admit_streams_def example_ctx_def example_pod_def any_match_def
      keys_from_pod_def collect_candidates_def accepts_by_placement_def container_discover_default_def)

text \<open>
  C1: however watch events interleave with the cursor task and the mux, every wanted stream has
  exactly one live attach task and every other stream has none: of the tasks ever spawned for
  a key, the ones whose token is not cancelled are the single registered one while the key is
  active, and none otherwise.  So no container is tailed twice and no dropped one stays alive.
\<close>

theorem one_live_task_per_stream:
  assumes "reachable ctx w"
  shows "{t. (key, t) \<in> set (w_spawned w) \<and> t \<notin> w_cancelled w}
    = (if key \<in> active w then {the (tokens w key)} else {})"
proof -
  note ok = world_okD [OF world_ok_reachable [OF assms]]
  have "{t. (key, t) \<in> set (w_spawned w) \<and> t \<notin> w_cancelled w} = {t. tokens w key = Some t}"
    by (simp only: ok(5))
  moreover have "key \<in> active w \<longleftrightarrow> (\<exists>t. tokens w key = Some t)"
    using ok(2) by (metis domIff not_Some_eq)
  ultimately show ?thesis by (cases "tokens w key") simp_all
qed

theorem one_live_task_per_stream_witness:
  "{t. (SourceKey ''ctx'' ''default'' ''web'' ''app'' ''u1'', t)
        \<in> set (w_spawned (handle_event example_ctx (EvApply example_pod) world_new))
       \<and> t \<notin> w_cancelled (handle_event example_ctx (EvApply example_pod) world_new)} = {0}"
proof -
  let ?k = "SourceKey ''ctx'' ''default'' ''web'' ''app'' ''u1''"
  let ?w = "handle_event example_ctx (EvApply example_pod) world_new"
  have r: "reachable example_ctx ?w" by (intro Reach_step [OF Reach_new] StepWatch)
  have "active ?w = {?k} \<and> tokens ?w ?k = Some 0"
    by (simp add: on_apply_def example_streams reconcile_pod_def apply_diff_def reconcile_def
        add_key_def world_new_def registry_new_def keys_for_pod_locator_def hash_iter_def)
  with one_live_task_per_stream [OF r, of ?k] show ?thesis by simp
qed

section \<open>The abstract watch\<close>

text \<open>
  What the watch promises, without tokens, tasks or caches: the set of wanted streams and the
  pods of a relist under way.
\<close>

definition locator_keys :: "watch_ctx \<Rightarrow> pod \<Rightarrow> string option \<Rightarrow> source_key set" where
  "locator_keys ctx p uid =
     {k. matches_locator ctx (unwrap_or [] (md_namespace p)) (unwrap_or [] (md_name p)) uid k}"

fun spec_event :: "watch_ctx \<Rightarrow> watch_event \<Rightarrow> source_key set \<times> pod list \<Rightarrow> source_key set \<times> pod list" where
  "spec_event ctx (EvDelete p) (A, pend) = (A - locator_keys ctx p (md_uid p), pend)"
| "spec_event ctx (EvApply p) (A, pend) =
     (if admit_pod (wc_admission ctx) p
      then (A - locator_keys ctx p None \<union> set (admit_streams (wc_admission ctx) p), pend)
      else (A - locator_keys ctx p (md_uid p), pend))"
| "spec_event ctx EvInit (A, pend) = (A, [])"
| "spec_event ctx (EvInitApply p) (A, pend) = (A, pend @ [p])"
| "spec_event ctx EvInitDone (A, pend) = (collect_snapshot (wc_admission ctx) pend, [])"

definition abs_world :: "world \<Rightarrow> source_key set \<times> pod list" where
  "abs_world w = (active w, w_pending w)"

fun watched :: "watch_wake list \<Rightarrow> watch_event list" where
  "watched [] = []"
| "watched (WakeCancelled # wakes) = []"
| "watched (WakeEnd # wakes) = []"
| "watched (WakeErr e # wakes) = watched wakes"
| "watched (WakeEvent ev # wakes) = ev # watched wakes"

lemma keys_for_pod_locator_set:
  "finite (active w) \<Longrightarrow> set (keys_for_pod_locator ctx ns nm uid w) = {k \<in> active w. matches_locator ctx ns nm uid k}"
  by (simp add: keys_for_pod_locator_def)

lemma on_delete_effect:
  assumes "finite (active w)"
  shows "active (on_delete ctx p w) = active w - locator_keys ctx p (md_uid p)"
    and "w_pending (on_delete ctx p w) = w_pending w"
    and "k \<notin> locator_keys ctx p (md_uid p) \<Longrightarrow> tokens (on_delete ctx p w) k = tokens w k"
    and "w_spawned (on_delete ctx p w) = w_spawned w"
  using assms
  by (auto simp: on_delete_def remove_pod_def runtime_simps keys_for_pod_locator_set locator_keys_def)

lemma reconcile_pod_effect:
  assumes "finite (active w)" and "finite desired"
  shows "active (reconcile_pod ctx p desired w) = active w - locator_keys ctx p None \<union> desired"
    and "w_pending (reconcile_pod ctx p desired w) = w_pending w"
    and "w_meta (reconcile_pod ctx p desired w) = w_meta w"
    and "k \<in> active w \<Longrightarrow> k \<notin> locator_keys ctx p None \<or> k \<in> desired \<Longrightarrow>
      tokens (reconcile_pod ctx p desired w) k = tokens w k"
    and "(k, t) \<in> set (w_spawned (reconcile_pod ctx p desired w)) \<Longrightarrow>
      (k, t) \<in> set (w_spawned w) \<or> k \<in> desired"
proof -
  let ?c = "set (keys_for_pod_locator ctx (unwrap_or [] (md_namespace p)) (unwrap_or [] (md_name p)) None w)"
  have c: "?c = active w \<inter> locator_keys ctx p None"
    using assms(1) by (auto simp: keys_for_pod_locator_set locator_keys_def)
  then have f: "finite ?c" "?c \<subseteq> active w" using assms(1) by auto
  note e = apply_diff_effect [OF f(1) assms(2) f(2), where ctx = ctx]
  show "active (reconcile_pod ctx p desired w) = active w - locator_keys ctx p None \<union> desired"
    and "w_pending (reconcile_pod ctx p desired w) = w_pending w"
    and "w_meta (reconcile_pod ctx p desired w) = w_meta w"
    and "k \<in> active w \<Longrightarrow> k \<notin> locator_keys ctx p None \<or> k \<in> desired \<Longrightarrow>
      tokens (reconcile_pod ctx p desired w) k = tokens w k"
    and "(k, t) \<in> set (w_spawned (reconcile_pod ctx p desired w)) \<Longrightarrow>
      (k, t) \<in> set (w_spawned w) \<or> k \<in> desired"
    using e by (auto simp: reconcile_pod_def Let_def c)
qed

lemma on_init_done_effect:
  assumes "finite (active w)"
  shows "active (on_init_done ctx w) = collect_snapshot (wc_admission ctx) (w_pending w)"
    and "w_pending (on_init_done ctx w) = []"
    and "k \<in> active w \<Longrightarrow> k \<in> collect_snapshot (wc_admission ctx) (w_pending w) \<Longrightarrow>
      tokens (on_init_done ctx w) k = tokens w k"
    and "w_meta (on_init_done ctx w) =
      meta_prune (from_source_key ` collect_snapshot (wc_admission ctx) (w_pending w))
        (fold (update_from_pod (wc_meta_hash ctx) (ctx_name ctx)) (w_pending w) (w_meta w))"
    and "(k, t) \<in> set (w_spawned (on_init_done ctx w)) \<Longrightarrow>
      (k, t) \<in> set (w_spawned w) \<or> k \<in> collect_snapshot (wc_admission ctx) (w_pending w)"
proof -
  let ?m = "meta_prune (from_source_key ` collect_snapshot (wc_admission ctx) (w_pending w))
        (fold (update_from_pod (wc_meta_hash ctx) (ctx_name ctx)) (w_pending w) (w_meta w))"
  let ?w = "w\<lparr>w_pending := [], w_meta := ?m\<rparr>"
  have d: "on_init_done ctx w = apply_diff ctx
      (reconcile (active ?w) (collect_snapshot (wc_admission ctx) (w_pending w))) ?w"
    by (simp add: on_init_done_def on_init_snapshot_def Let_def reconcile_snapshot_def)
  have f: "finite (active ?w)" using assms by simp
  have fs: "finite (collect_snapshot (wc_admission ctx) (w_pending w))" by simp
  note e = apply_diff_effect [OF f fs subset_refl, where ctx = ctx, folded d]
  show "active (on_init_done ctx w) = collect_snapshot (wc_admission ctx) (w_pending w)"
    and "w_pending (on_init_done ctx w) = []"
    and "k \<in> active w \<Longrightarrow> k \<in> collect_snapshot (wc_admission ctx) (w_pending w) \<Longrightarrow>
      tokens (on_init_done ctx w) k = tokens w k"
    and "w_meta (on_init_done ctx w) = ?m"
    and "(k, t) \<in> set (w_spawned (on_init_done ctx w)) \<Longrightarrow>
      (k, t) \<in> set (w_spawned w) \<or> k \<in> collect_snapshot (wc_admission ctx) (w_pending w)"
    using e by auto
qed

lemma handle_event_refines:
  assumes "finite (active w)"
  shows "abs_world (handle_event ctx ev w) = spec_event ctx ev (abs_world w)"
  using assms
  by (cases ev)
    (auto simp: abs_world_def on_delete_effect on_apply_def reconcile_pod_effect on_init_begin_def
      on_init_apply_def on_init_done_effect)

text \<open>
  C2: the watch loop refines its abstract specification: started fresh, and run over any
  sequence of wake-ups (errors are skipped, the loop stops at cancellation or the end of the
  watcher), the active streams and the pending pods are those the specification computes from
  the events alone, whatever order the hash sets are iterated in.
\<close>

theorem watch_loop_refines:
  "abs_world (watch_loop ctx wakes world_new) = fold (spec_event ctx) (watched wakes) ({}, [])"
proof -
  have "abs_world (watch_loop ctx wakes w) = fold (spec_event ctx) (watched wakes) (abs_world w)"
    if "world_ok ctx w" for w
    using that
    by (induction ctx wakes w rule: watch_loop.induct)
      (simp_all add: handle_event_refines world_ok_handle_event world_okD(1))
  from this [OF world_ok_new] show ?thesis
    by (simp add: abs_world_def world_new_def registry_new_def)
qed

text \<open>
  C17: a relist converges and disturbs nothing that stays: from any reachable world, after the
  watcher has restarted and delivered its pods, exactly the admitted streams of those pods are
  active, and every stream that was active and still is keeps its running task.
\<close>

theorem relist_converges:
  assumes "reachable ctx w"
    and "w' = fold (handle_event ctx) (EvInit # map EvInitApply pods @ [EvInitDone]) w"
  shows "active w' = (\<Union>p \<in> {p \<in> set pods. admit_pod (wc_admission ctx) p}. set (admit_streams (wc_admission ctx) p))
    \<and> w_pending w' = []
    \<and> {k \<in> active w \<inter> active w'. tokens w' k \<noteq> tokens w k} = {}"
proof -
  let ?w1 = "fold (handle_event ctx) (EvInit # map EvInitApply pods) w"
  have step: "w_pending (fold (handle_event ctx) (map EvInitApply ps) v) = w_pending v @ ps
      \<and> w_registry (fold (handle_event ctx) (map EvInitApply ps) v) = w_registry v" for ps v
    by (induction ps arbitrary: v) (simp_all add: on_init_apply_def)
  have w1: "w_pending ?w1 = pods" "w_registry ?w1 = w_registry w"
    using step [of pods "on_init_begin w"] by (simp_all add: on_init_begin_def)
  have w': "w' = on_init_done ctx ?w1" by (simp add: assms(2))
  have f: "finite (active ?w1)" unfolding w1 using world_okD(1) [OF world_ok_reachable [OF assms(1)]] .
  note e = on_init_done_effect(1-3) [OF f, where ctx = ctx, folded w', unfolded w1 collect_snapshot_eq]
  show ?thesis using e by auto
qed

theorem relist_converges_witness:
  "active (fold (handle_event example_ctx) (EvInit # map EvInitApply [example_pod] @ [EvInitDone]) world_new)
   = {SourceKey ''ctx'' ''default'' ''web'' ''app'' ''u1''}"
  by (simp only: conjunct1 [OF relist_converges [OF Reach_new [of example_ctx] refl]])
    (auto simp: example_streams)

text \<open>
  A stream is attached only with its pod's metadata at hand: whenever handling an event
  spawns an attach task, the metadata cache holds for it the snapshot of a pod that the event
  (or the relist it completes) delivered under exactly this context, namespace, name and uid.
\<close>

theorem spawned_with_metadata:
  assumes "reachable ctx w" and "(key, t) \<in> set (w_spawned (handle_event ctx ev w)) - set (w_spawned w)"
  shows "\<exists>p. (ev = EvApply p \<or> ev = EvInitDone \<and> p \<in> set (w_pending w))
    \<and> try_from_pod (ctx_name ctx) p = Some (from_source_key key)
    \<and> meta_lookup (wc_meta_hash ctx) (w_meta (handle_event ctx ev w)) key = pod_meta_snapshot_from_pod p"
proof -
  note ok = world_okD [OF world_ok_reachable [OF assms(1)]]
  show ?thesis
  proof (cases ev)
    case (EvApply p)
    with assms(2) have adm: "admit_pod (wc_admission ctx) p"
      by (cases "admit_pod (wc_admission ctx) p") (simp_all add: on_apply_def on_delete_effect(4) [OF ok(1)])
    let ?w1 = "w\<lparr>w_meta := update_from_pod (wc_meta_hash ctx) (ctx_name ctx) p (w_meta w)\<rparr>"
    have f: "finite (active ?w1)" using ok(1) by simp
    from assms(2) EvApply adm have "key \<in> set (admit_streams (wc_admission ctx) p)"
      using reconcile_pod_effect(5) [OF f, of "set (admit_streams (wc_admission ctx) p)" key t]
      by (auto simp: on_apply_def)
    then have loc: "try_from_pod (ctx_name ctx) p = Some (from_source_key key)"
      by (rule admitted_stream_locator [OF adm])
    then have "meta_lookup (wc_meta_hash ctx) (w_meta (handle_event ctx ev w)) key = pod_meta_snapshot_from_pod p"
      using adm EvApply reconcile_pod_effect(3) [OF f, of "set (admit_streams (wc_admission ctx) p)"]
      by (simp add: on_apply_def meta_lookup_def update_from_pod(2) [OF ok(6)])
    with EvApply loc show ?thesis by blast
  next
    case EvInitDone
    let ?m = "fold (update_from_pod (wc_meta_hash ctx) (ctx_name ctx)) (w_pending w) (w_meta w)"
    have snap: "key \<in> collect_snapshot (wc_admission ctx) (w_pending w)"
      using assms(2) EvInitDone on_init_done_effect(5) [OF ok(1)] by auto
    then obtain q where q: "q \<in> set (w_pending w)" "try_from_pod (ctx_name ctx) q = Some (from_source_key key)"
      by (auto simp: collect_snapshot_eq intro: admitted_stream_locator)
    with update_all [OF ok(6), of "ctx_name ctx" "w_pending w"]
    obtain p where p: "p \<in> set (w_pending w)" "try_from_pod (ctx_name ctx) p = Some (from_source_key key)"
      "meta_get (wc_meta_hash ctx) ?m (from_source_key key) = Some (pod_meta_snapshot_from_pod p)"
      by blast
    have inv: "sharded_invar (wc_meta_hash ctx) ?m" using update_all [OF ok(6)] by blast
    have "meta_lookup (wc_meta_hash ctx) (w_meta (handle_event ctx ev w)) key = pod_meta_snapshot_from_pod p"
      using snap p(3) by (simp add: EvInitDone on_init_done_effect(4) [OF ok(1)] meta_lookup_def meta_prune(2) [OF inv])
    with EvInitDone p show ?thesis by blast
  qed (use assms(2) in \<open>simp_all add: on_delete_effect(4) [OF ok(1)] on_init_begin_def on_init_apply_def\<close>)
qed

theorem spawned_with_metadata_witness:
  "meta_lookup (wc_meta_hash example_ctx) (w_meta (handle_event example_ctx (EvApply example_pod) world_new))
     (SourceKey ''ctx'' ''default'' ''web'' ''app'' ''u1'') = pod_meta_snapshot_from_pod example_pod"
proof -
  have "(SourceKey ''ctx'' ''default'' ''web'' ''app'' ''u1'', 0)
      \<in> set (w_spawned (handle_event example_ctx (EvApply example_pod) world_new)) - set (w_spawned world_new)"
    by (simp add: on_apply_def example_streams reconcile_pod_def apply_diff_def reconcile_def
        add_key_def world_new_def registry_new_def keys_for_pod_locator_def hash_iter_def)
  from spawned_with_metadata [OF Reach_new this] show ?thesis by auto
qed

end
