(* ===== verification/Attach.thy ===== *)
theory Attach
  imports Lifecycle
begin

text \<open>
  Attaching a stream (\<open>runtime/attach.rs\<close>): the metadata of its events, the loop that opens,
  multiplexes and reopens it, and the semaphore all attach tasks share.  What the rest of the
  system does during one round of the loop is given by an \<open>attach_env\<close>.
\<close>

section \<open>Event metadata\<close>

definition source_meta_for_key ::
  "(pod_locator \<Rightarrow> u64) \<Rightarrow> (string \<Rightarrow> u64) \<Rightarrow> context_name \<Rightarrow> pod_meta_cache \<Rightarrow> source_key \<Rightarrow>
     color_assign_opts \<Rightarrow> source_meta" where
  "source_meta_for_key hash sea context cache key color_opts =
     (let snap = meta_lookup hash cache key in
      apply_palette_to_meta sea color_opts
        \<lparr>sm_context = context, sm_namespace = sk_namespace key, sm_pod = sk_pod key,
         sm_container = sk_container key, sm_kind = KPodLog, sm_node = snap_node snap,
         sm_labels = snap_labels snap, sm_uid = sk_uid key, sm_palette_index = None,
         sm_container_palette_index = None\<rparr>)"

section \<open>The attach loop\<close>

definition max_reopen_start_retries :: nat where
  "max_reopen_start_retries = 5"

definition build_log_request_semaphore :: "nat \<Rightarrow> nat" where
  "build_log_request_semaphore n = max n 1"

record attach_params =
  ap_key :: source_key
  ap_pod_log :: pod_log_request
  ap_reconnect :: bool
  ap_time :: time_lib
  ap_hash :: "source_key \<Rightarrow> u64"

text \<open>
  One round: whether the pod or the root token is cancelled at its start, the stores seen while
  waiting for the cursor, whether a permit is to be had, the outcome of the open, whether the
  mux still takes commands, what the one-shot channel of the stream delivers (\<open>None\<close> if its
  sender is lost), whether a token is cancelled after a failed open, the draw of the jitter,
  and whether a token is cancelled during the sleep.
\<close>

record 's attach_env =
  ae_cancelled :: bool
  ae_snaps :: "nat \<Rightarrow> cursor_store"
  ae_permit :: bool
  ae_open :: "pod_log_request \<Rightarrow> log_source_error + 's"
  ae_mux_open :: bool
  ae_done :: "stream_end option"
  ae_cancelled_after :: bool
  ae_draw :: "u64 \<Rightarrow> u64"
  ae_cancelled_in_sleep :: bool

record attach_state =
  at_reopen :: bool
  at_failures :: u32
  at_flush_target :: "timestamp option"

definition attach_init :: attach_state where
  "attach_init = \<lparr>at_reopen = False, at_failures = 0, at_flush_target = None\<rparr>"

datatype 's attach_action =
  Acquire | Release | NotifyLimit | CancelRoot | Open pod_log_request | AddToMux source_key 's
| Sleep u64

text \<open>The actions of one round, and the state of the next round unless the task returns.\<close>

definition attach_round ::
  "attach_params \<Rightarrow> 's attach_env \<Rightarrow> attach_state \<Rightarrow> 's attach_action list \<times> attach_state option" where
  "attach_round p env st =
     (if ae_cancelled env then ([], None)
      else
        (let request = reopen_request (ap_time p) (ap_hash p) (ap_reconnect p) (ae_snaps env) (ap_key p)
               (ap_pod_log p) (at_reopen st) (at_flush_target st);
             st = st\<lparr>at_flush_target := None\<rparr>
         in if \<not> ae_permit env then
              ((if plr_follow (ap_pod_log p) then [NotifyLimit, CancelRoot] else []), None)
            else
              (case ae_open env request of
                 Inr src \<Rightarrow>
                   (let st = st\<lparr>at_failures := 0\<rparr> in
                    if \<not> ae_mux_open env then ([Acquire, Open request, Release], None)
                    else
                      ([Acquire, Open request, AddToMux (ap_key p) src, Release],
                       (case ae_done env of
                          Some (EndEof last_ts) \<Rightarrow>
                            if ap_reconnect p
                            then Some (st\<lparr>at_flush_target := last_ts, at_reopen := True\<rparr>)
                            else None
                        | _ \<Rightarrow> None)))
               | Inl e \<Rightarrow>
                   if at_reopen st \<and> ap_reconnect p \<and> \<not> ae_cancelled_after env
                      \<and> unat (at_failures st) < max_reopen_start_retries
                   then
                     (let st = st\<lparr>at_failures := at_failures st + 1\<rparr>;
                          delay = full_jitter_backoff (ae_draw env) 250 (at_failures st - 1)
                      in ([Acquire, Open request, Release, Sleep delay],
                          if ae_cancelled_in_sleep env then None else Some st))
                   else ([Acquire, Open request, Release], None))))"

text \<open>The task over the rounds the environment gives it; the flag says whether it has returned.\<close>

fun attach_loop ::
  "attach_params \<Rightarrow> 's attach_env list \<Rightarrow> attach_state \<Rightarrow> 's attach_action list \<times> bool" where
  "attach_loop p [] st = ([], False)"
| "attach_loop p (env # envs) st =
     (case attach_round p env st of
        (acts, None) \<Rightarrow> (acts, True)
      | (acts, Some st') \<Rightarrow> (case attach_loop p envs st' of (acts2, returned) \<Rightarrow> (acts @ acts2, returned)))"

definition opens :: "'s attach_action list \<Rightarrow> pod_log_request list" where
  "opens acts = List.map_filter (\<lambda>a. case a of Open r \<Rightarrow> Some r | _ \<Rightarrow> None) acts"

definition sleeps :: "'s attach_action list \<Rightarrow> u64 list" where
  "sleeps acts = List.map_filter (\<lambda>a. case a of Sleep d \<Rightarrow> Some d | _ \<Rightarrow> None) acts"

lemma opens_simps [simp]:
  "opens [] = []" "opens (Open r # xs) = r # opens xs" "opens (a @ b) = opens a @ opens b"
  "opens (Acquire # xs) = opens xs" "opens (Release # xs) = opens xs" "opens (NotifyLimit # xs) = opens xs"
  "opens (CancelRoot # xs) = opens xs" "opens (AddToMux k s # xs) = opens xs" "opens (Sleep d # xs) = opens xs"
  by (simp_all add: opens_def map_filter_def)

lemma sleeps_simps [simp]:
  "sleeps [] = []" "sleeps (Open r # xs) = sleeps xs" "sleeps (a @ b) = sleeps a @ sleeps b"
  "sleeps (Acquire # xs) = sleeps xs" "sleeps (Release # xs) = sleeps xs" "sleeps (NotifyLimit # xs) = sleeps xs"
  "sleeps (CancelRoot # xs) = sleeps xs" "sleeps (AddToMux k s # xs) = sleeps xs" "sleeps (Sleep d # xs) = d # sleeps xs"
  by (simp_all add: sleeps_def map_filter_def)

lemma attach_round_no_reconnect:
  "\<not> ap_reconnect p \<Longrightarrow> snd (attach_round p env st) = None"
  by (auto simp: attach_round_def Let_def split: sum.split option.split stream_end.split)

lemma reopen_request_first:
  "\<not> reopen \<or> \<not> enabled \<Longrightarrow> reopen_request tlib hash enabled snaps key base reopen target = base"
  by (auto simp: reopen_request_def pod_log_request_for_reopen_def
      pod_log_request_for_reopen_with_overlap_def)

text \<open>
  Without cursor reconnect a stream is opened at most once, with the user's request as it
  is, whatever happens, and the task returns after its first round; with follow and no permit
  left it opens nothing, tells \<open>run\<close> about the limit and cancels the root token, in this order.
\<close>

theorem attach_once_without_reconnect:
  assumes "\<not> ap_reconnect p"
  shows "snd (attach_loop p (env # envs) attach_init)
    \<and> (opens (fst (attach_loop p (env # envs) attach_init)) = []
       \<or> opens (fst (attach_loop p (env # envs) attach_init)) = [ap_pod_log p])
    \<and> (ae_cancelled env \<or> ae_permit env \<or> \<not> plr_follow (ap_pod_log p)
       \<or> fst (attach_loop p (env # envs) attach_init) = [NotifyLimit, CancelRoot])"
  using assms
  by (auto simp: attach_round_def reopen_request_first attach_init_def Let_def
      split: sum.split option.split stream_end.split)

text \<open>Rounds whose open fails: at most five of them are retried in a row.\<close>

lemma attach_round_failed:
  assumes "\<And>r. \<exists>e. ae_open env r = Inl e"
  shows "length (opens (fst (attach_round p env st))) \<le> 1"
    and "length (sleeps (fst (attach_round p env st))) \<le> 1"
    and "snd (attach_round p env st) = Some st' \<Longrightarrow>
      unat (at_failures st) < 5 \<and> unat (at_failures st') = unat (at_failures st) + 1"
    and "(\<And>c. ae_draw env c \<le> c) \<Longrightarrow> d \<in> set (sleeps (fst (attach_round p env st))) \<Longrightarrow>
      unat d \<le> min (250 * 2 ^ unat (at_failures st)) 30000 \<and> unat (at_failures st) < 5"
proof -
  let ?r = "reopen_request (ap_time p) (ap_hash p) (ap_reconnect p) (ae_snaps env) (ap_key p)
               (ap_pod_log p) (at_reopen st) (at_flush_target st)"
  obtain e where e: "ae_open env ?r = Inl e" using assms by blast
  have one: "length (opens (fst (attach_round p env st))) \<le> 1 \<and> length (sleeps (fst (attach_round p env st))) \<le> 1"
    using e by (auto simp: attach_round_def Let_def)
  then show "length (opens (fst (attach_round p env st))) \<le> 1"
    and "length (sleeps (fst (attach_round p env st))) \<le> 1" by auto
  have inc: "unat (at_failures st + 1) = unat (at_failures st) + 1" if "unat (at_failures st) < 5"
    using that by (subst unat_add_lem [THEN iffD1]) auto
  show "unat (at_failures st) < 5 \<and> unat (at_failures st') = unat (at_failures st) + 1"
    if "snd (attach_round p env st) = Some st'"
    using that e inc by (auto simp: attach_round_def Let_def max_reopen_start_retries_def split: if_splits)
  show "unat d \<le> min (250 * 2 ^ unat (at_failures st)) 30000 \<and> unat (at_failures st) < 5"
    if draw: "\<And>c. ae_draw env c \<le> c" and d: "d \<in> set (sleeps (fst (attach_round p env st)))"
  proof -
    from d e have "unat (at_failures st) < 5" and "d = full_jitter_backoff (ae_draw env) 250 (at_failures st)"
      by (auto simp: attach_round_def Let_def max_reopen_start_retries_def split: if_splits)
    moreover have "full_jitter_backoff (ae_draw env) 250 (at_failures st) \<le> backoff_cap 250 (at_failures st)"
      using draw by (simp add: full_jitter_backoff_def Let_def)
    ultimately show ?thesis by (auto simp: word_le_nat_alt unat_backoff_cap)
  qed
qed

text \<open>The longest pauses of the retries from the \<open>f\<close>-th on, in milliseconds.\<close>

fun retry_budget :: "nat \<Rightarrow> nat" where
  "retry_budget 0 = 0"
| "retry_budget (Suc n) = min (250 * 2 ^ (4 - n)) 30000 + retry_budget n"

lemma retry_budget_step:
  assumes "f < 5"
  shows "retry_budget (5 - f) = min (250 * 2 ^ f) 30000 + retry_budget (5 - (f + 1))"
proof -
  have "5 - f = Suc (5 - (f + 1))" and "4 - (5 - (f + 1)) = f" using assms by simp_all
  then show ?thesis by (simp only: retry_budget.simps(2))
qed

lemma retry_budget_five: "retry_budget 5 = 7750"
proof -
  have "5 = Suc (Suc (Suc (Suc (Suc 0))))" by simp
  then show ?thesis by (simp only: retry_budget.simps) simp
qed

lemma attach_loop_failing:
  assumes "\<forall>env \<in> set envs. \<forall>r. \<exists>e. ae_open env r = Inl e"
    and "\<forall>env \<in> set envs. \<forall>c. ae_draw env c \<le> c"
    and "unat (at_failures st) \<le> 5"
  shows "length (opens (fst (attach_loop p envs st))) \<le> 6 - unat (at_failures st)
    \<and> length (sleeps (fst (attach_loop p envs st))) \<le> 5 - unat (at_failures st)
    \<and> sum_list (map unat (sleeps (fst (attach_loop p envs st)))) \<le> retry_budget (5 - unat (at_failures st))
    \<and> (6 - unat (at_failures st) \<le> length envs \<longrightarrow> snd (attach_loop p envs st))"
  using assms
proof (induction envs arbitrary: st)
  case Nil
  then show ?case by simp
next
  case (Cons env envs)
  let ?f = "unat (at_failures st)"
  have fails: "\<And>r. \<exists>e. ae_open env r = Inl e" and draw: "\<And>c. ae_draw env c \<le> c"
    using Cons.prems(1,2) by auto
  note round = attach_round_failed [where p = p and st = st, OF fails]
  obtain acts next_st where r: "attach_round p env st = (acts, next_st)" by fastforce
  have one: "length (opens acts) \<le> 1" using round(1) r by simp
  have sl: "sleeps acts = [] \<or> (\<exists>d. sleeps acts = [d] \<and> unat d \<le> min (250 * 2 ^ ?f) 30000 \<and> ?f < 5)"
  proof (cases "sleeps acts")
    case (Cons d ds)
    then have "ds = []" using round(2) r by simp
    moreover have "unat d \<le> min (250 * 2 ^ ?f) 30000 \<and> ?f < 5"
      using round(4) [OF draw, of d] r Cons by simp
    ultimately show ?thesis using Cons by blast
  qed simp
  have budget: "?f < 5 \<Longrightarrow> retry_budget (5 - ?f) = min (250 * 2 ^ ?f) 30000 + retry_budget (5 - (?f + 1))"
    by (rule retry_budget_step)
  have slb: "length (sleeps acts) + k \<le> 5 - ?f \<and> sum_list (map unat (sleeps acts)) + s \<le> retry_budget (5 - ?f)"
    if k: "k \<le> 5 - (?f + 1)" and s: "s \<le> retry_budget (5 - (?f + 1))" and f: "?f < 5" for k s
  proof (cases "sleeps acts = []")
    case True
    then show ?thesis using k s f budget [OF f] by simp
  next
    case False
    then obtain d where d: "sleeps acts = [d]" "unat d \<le> min (250 * 2 ^ ?f) 30000" using sl by blast
    then have "unat d + s \<le> retry_budget (5 - ?f)" using s budget [OF f] by linarith
    then show ?thesis using d(1) k f by simp
  qed
  show ?case
  proof (cases next_st)
    case None
    have "length (sleeps acts) \<le> 5 - ?f \<and> sum_list (map unat (sleeps acts)) \<le> retry_budget (5 - ?f)"
    proof (cases "?f < 5")
      case True
      then show ?thesis using slb [of 0 0] by simp
    next
      case False
      then have "sleeps acts = []" using sl by blast
      then show ?thesis by simp
    qed
    then show ?thesis using r None one Cons.prems(3) by simp
  next
    case (Some st')
    then have f: "?f < 5" "unat (at_failures st') = ?f + 1" using round(3) [of st'] r by auto
    obtain acts2 ret where l: "attach_loop p envs st' = (acts2, ret)" by fastforce
    from f Cons.IH [of st'] Cons.prems(1,2)
    have IH: "length (opens acts2) \<le> 6 - (?f + 1)" "length (sleeps acts2) \<le> 5 - (?f + 1)"
      "sum_list (map unat (sleeps acts2)) \<le> retry_budget (5 - (?f + 1))"
      "6 - (?f + 1) \<le> length envs \<longrightarrow> ret"
      by (simp_all add: l)
    have loop: "attach_loop p (env # envs) st = (acts @ acts2, ret)" by (simp add: r Some l)
    have o: "length (opens acts) + length (opens acts2) \<le> 6 - ?f" using one IH(1) f(1) by linarith
    have ret: "6 - ?f \<le> length (env # envs) \<longrightarrow> ret" using IH(4) f(1) by auto
    show ?thesis
      unfolding loop using o ret slb [OF IH(2,3) f(1)] by simp
  qed
qed

text \<open>
  C32: reopening gives up: when every open fails from some reopen on, the task makes at most six
  attempts and five pauses, which last at most 7.75 seconds together, and it has returned
  after six rounds.
\<close>

theorem failing_reopen_gives_up:
  assumes "\<forall>env \<in> set envs. \<forall>r. \<exists>e. ae_open env r = Inl e"
    and "\<forall>env \<in> set envs. \<forall>c. ae_draw env c \<le> c"
    and "at_failures st = 0"
  shows "length (opens (fst (attach_loop p envs st))) \<le> 6
    \<and> length (sleeps (fst (attach_loop p envs st))) \<le> 5
    \<and> sum_list (map unat (sleeps (fst (attach_loop p envs st)))) \<le> 7750
    \<and> (length envs < 6 \<or> snd (attach_loop p envs st))"
proof -
  have f: "unat (at_failures st) = 0" by (simp add: assms(3))
  have "unat (at_failures st) \<le> 5" by (simp add: f)
  from attach_loop_failing [OF assms(1,2) this, where p = p] show ?thesis
    unfolding f diff_zero retry_budget_five by linarith
qed

definition example_params :: attach_params where
  "example_params =
     \<lparr>ap_key = SourceKey ''ctx'' ''default'' ''web'' ''app'' ''u1'',
      ap_pod_log = \<lparr>plr_follow = True, plr_tail = None, plr_since_seconds = None, plr_since_time = None,
                    plr_previous = False\<rparr>,
      ap_reconnect = True,
      ap_time = \<lparr>tl_checked_sub = (\<lambda>t d. Some (t - d)), tl_reparse = Some\<rparr>, ap_hash = (\<lambda>_. 5)\<rparr>"

definition example_env :: "log_source_error + unit \<Rightarrow> unit attach_env" where
  "example_env r =
     \<lparr>ae_cancelled = False, ae_snaps = (\<lambda>_. cursor_store_new), ae_permit = True, ae_open = (\<lambda>_. r),
      ae_mux_open = True, ae_done = Some (EndEof None), ae_cancelled_after = False,
      ae_draw = (\<lambda>c. c), ae_cancelled_in_sleep = False\<rparr>"

theorem failing_reopen_gives_up_witness:
  "snd (attach_loop example_params (replicate 6 (example_env (Inl Eof)))
     \<lparr>at_reopen = True, at_failures = 0, at_flush_target = None\<rparr>)"
  using failing_reopen_gives_up [of "replicate 6 (example_env (Inl Eof))"
      "\<lparr>at_reopen = True, at_failures = 0, at_flush_target = None\<rparr>" example_params]
  by (simp add: example_env_def del: attach_loop.simps)

theorem attach_once_without_reconnect_witness:
  "fst (attach_loop (example_params\<lparr>ap_reconnect := False\<rparr>) [example_env (Inr ())\<lparr>ae_permit := False\<rparr>] attach_init)
     = [NotifyLimit, CancelRoot]"
  using attach_once_without_reconnect [of "example_params\<lparr>ap_reconnect := False\<rparr>"
      "example_env (Inr ())\<lparr>ae_permit := False\<rparr>" "[]"]
  by (simp add: example_params_def example_env_def del: attach_loop.simps)

text \<open>
  Reopening after an end of stream knows no pause: as long as opens succeed and the stream
  ends at once (as it does for a container that has terminated), the task opens it again and
  again, round after round, without ever sleeping or returning.
\<close>

theorem reopen_after_eof_never_pauses:
  assumes "ap_reconnect p" and "\<not> ae_cancelled env" and "ae_permit env" and "ae_mux_open env"
    and "\<forall>r. \<exists>s. ae_open env r = Inr s" and "ae_done env = Some (EndEof t)"
  shows "length (opens (fst (attach_loop p (replicate n env) st))) = n
    \<and> sleeps (fst (attach_loop p (replicate n env) st)) = []
    \<and> \<not> snd (attach_loop p (replicate n env) st)"
proof (induction n arbitrary: st)
  case (Suc n)
  let ?r = "reopen_request (ap_time p) (ap_hash p) (ap_reconnect p) (ae_snaps env) (ap_key p)
               (ap_pod_log p) (at_reopen st) (at_flush_target st)"
  obtain src where "ae_open env ?r = Inr src" using assms(5) by blast
  then have "attach_round p env st =
      ([Acquire, Open ?r, AddToMux (ap_key p) src, Release],
       Some (st\<lparr>at_flush_target := t, at_failures := 0, at_reopen := True\<rparr>))"
    using assms by (simp add: attach_round_def Let_def)
  with Suc show ?case by (simp add: case_prod_unfold)
qed simp

theorem reopen_after_eof_never_pauses_witness:
  "length (opens (fst (attach_loop example_params (replicate 1000 (example_env (Inr ()))) attach_init))) = 1000"
  using reopen_after_eof_never_pauses [of example_params "example_env (Inr ())" None 1000 attach_init]
  by (simp add: example_params_def example_env_def)

section \<open>The shared semaphore\<close>

text \<open>
  The attach tasks of one run: how many permits are left, which streams hold one (their open is
  under way), which are streaming (their permit has been given back), and whether the limit was
  reported and the root token cancelled.
\<close>

record pool =
  po_avail :: nat
  po_starting :: "source_key list"
  po_streaming :: "source_key list"
  po_notified :: bool
  po_root_cancelled :: bool

definition pool_new :: "nat \<Rightarrow> pool" where
  "pool_new n =
     \<lparr>po_avail = build_log_request_semaphore n, po_starting = [], po_streaming = [],
      po_notified = False, po_root_cancelled = False\<rparr>"

inductive pool_step :: "bool \<Rightarrow> pool \<Rightarrow> pool \<Rightarrow> bool" for follow where
  PoAcquire: "0 < po_avail w \<Longrightarrow>
    pool_step follow w (w\<lparr>po_avail := po_avail w - 1, po_starting := k # po_starting w\<rparr>)"
| PoRefuse: "follow \<Longrightarrow> po_avail w = 0 \<Longrightarrow>
    pool_step follow w (w\<lparr>po_notified := True, po_root_cancelled := True\<rparr>)"
| PoOpened: "po_starting w = xs @ k # ys \<Longrightarrow>
    pool_step follow w (w\<lparr>po_avail := po_avail w + 1, po_starting := xs @ ys, po_streaming := k # po_streaming w\<rparr>)"
| PoFailed: "po_starting w = xs @ k # ys \<Longrightarrow>
    pool_step follow w (w\<lparr>po_avail := po_avail w + 1, po_starting := xs @ ys\<rparr>)"
| PoEnded: "po_streaming w = xs @ k # ys \<Longrightarrow> pool_step follow w (w\<lparr>po_streaming := xs @ ys\<rparr>)"
| PoSignal: "pool_step follow w (w\<lparr>po_root_cancelled := True\<rparr>)"

text \<open>
  The rounds of an attach task are made of these steps: a round that takes a permit starts with
  \<open>PoAcquire\<close> and ends with \<open>PoOpened\<close> or \<open>PoFailed\<close>, one that is refused a permit while following
  is a \<open>PoRefuse\<close>, and any other leaves the pool alone.
\<close>

lemma attach_round_pool:
  assumes "attach_round p env st = (acts, nxt)" and "ae_permit env \<longleftrightarrow> 0 < po_avail w"
  shows "NotifyLimit \<in> set acts \<longleftrightarrow> CancelRoot \<in> set acts"
    and "NotifyLimit \<in> set acts \<Longrightarrow>
      pool_step (plr_follow (ap_pod_log p)) w (w\<lparr>po_notified := True, po_root_cancelled := True\<rparr>)"
    and "Acquire \<in> set acts \<Longrightarrow> \<exists>w1. pool_step (plr_follow (ap_pod_log p)) w w1
      \<and> po_starting w1 = ap_key p # po_starting w
      \<and> pool_step (plr_follow (ap_pod_log p)) w1 (w\<lparr>po_streaming :=
          (if \<exists>s. AddToMux (ap_key p) s \<in> set acts then ap_key p # po_streaming w else po_streaming w)\<rparr>)"
    and "Acquire \<in> set acts \<longleftrightarrow> Release \<in> set acts"
proof -
  show "NotifyLimit \<in> set acts \<longleftrightarrow> CancelRoot \<in> set acts" and "Acquire \<in> set acts \<longleftrightarrow> Release \<in> set acts"
    using assms(1) by (auto simp: attach_round_def Let_def split: if_splits sum.splits)
  show "pool_step (plr_follow (ap_pod_log p)) w (w\<lparr>po_notified := True, po_root_cancelled := True\<rparr>)"
    if "NotifyLimit \<in> set acts"
    by (rule PoRefuse) (use that assms in \<open>auto simp: attach_round_def Let_def split: if_splits sum.splits\<close>)
  assume "Acquire \<in> set acts"
  then have av: "0 < po_avail w"
    using assms by (auto simp: attach_round_def Let_def split: if_splits)
  let ?f = "plr_follow (ap_pod_log p)"
  let ?w1 = "w\<lparr>po_avail := po_avail w - 1, po_starting := ap_key p # po_starting w\<rparr>"
  have first: "pool_step ?f w ?w1" by (rule PoAcquire [OF av])
  have s: "po_starting ?w1 = [] @ ap_key p # po_starting w" by simp
  have "pool_step ?f ?w1 (w\<lparr>po_streaming := ap_key p # po_streaming w\<rparr>)" and "pool_step ?f ?w1 w"
    using PoOpened [OF s, of ?f] PoFailed [OF s, of ?f] av by simp_all
  with first show "\<exists>w1. pool_step ?f w w1 \<and> po_starting w1 = ap_key p # po_starting w
      \<and> pool_step ?f w1 (w\<lparr>po_streaming :=
          (if \<exists>s. AddToMux (ap_key p) s \<in> set acts then ap_key p # po_streaming w else po_streaming w)\<rparr>)"
    by (intro exI [of _ ?w1]) simp
qed

inductive_cases pool_stepE: "pool_step follow w w'"

inductive pool_reachable :: "bool \<Rightarrow> nat \<Rightarrow> pool \<Rightarrow> bool" for follow n where
  PrNew: "pool_reachable follow n (pool_new n)"
| PrStep: "pool_reachable follow n w \<Longrightarrow> pool_step follow w w' \<Longrightarrow> pool_reachable follow n w'"

lemma pool_invariant:
  assumes "pool_reachable follow n w"
  shows "po_avail w + length (po_starting w) = max n 1 \<and> (po_notified w \<longrightarrow> po_root_cancelled w \<and> follow)"
  using assms
proof induction
  case PrNew
  then show ?case by (simp add: pool_new_def build_log_request_semaphore_def)
next
  case (PrStep w w')
  then show ?case by (elim pool_stepE) auto
qed

lemma pool_streams:
  "\<exists>w. pool_reachable follow n w \<and> length (po_streaming w) = m \<and> po_starting w = []
     \<and> \<not> po_root_cancelled w \<and> \<not> po_notified w"
proof (induction m)
  case 0
  show ?case
    by (rule exI [of _ "pool_new n"]) (simp add: PrNew, simp add: pool_new_def)
next
  case (Suc m)
  then obtain w where w: "pool_reachable follow n w" "length (po_streaming w) = m" "po_starting w = []"
    "\<not> po_root_cancelled w" "\<not> po_notified w" by blast
  have av: "0 < po_avail w" using pool_invariant [OF w(1)] w(3) by simp
  let ?w1 = "w\<lparr>po_avail := po_avail w - 1, po_starting := undefined # po_starting w\<rparr>"
  let ?w2 = "?w1\<lparr>po_avail := po_avail ?w1 + 1, po_starting := [] @ [], po_streaming := undefined # po_streaming ?w1\<rparr>"
  have r1: "pool_reachable follow n ?w1" by (rule PrStep [OF w(1) PoAcquire [OF av]])
  have "pool_step follow ?w1 ?w2" by (rule PoOpened) (simp add: w(3))
  then have "pool_reachable follow n ?w2" by (rule PrStep [OF r1])
  with w show ?case by (intro exI [of _ ?w2]) simp
qed

text \<open>
  C33: \<open>--max-log-requests\<close> bounds the streams being opened, not the open ones: at every moment
  at most \<open>max n 1\<close> opens are under way, permits are neither lost nor invented, and the limit
  is reported only when following and then the root token is cancelled; but for every number
  \<open>m\<close>, a run with any limit can have \<open>m\<close> streams open at once without the limit ever reported.
\<close>

theorem max_log_requests_bounds_starts_only:
  "{w. pool_reachable follow n w}
     \<subseteq> {w. length (po_starting w) \<le> max n 1 \<and> po_avail w + length (po_starting w) = max n 1}
   \<and> {w. pool_reachable follow n w \<and> po_notified w} \<subseteq> {w. po_root_cancelled w \<and> follow}
   \<and> (\<forall>m. \<exists>w. pool_reachable follow n w \<and> length (po_streaming w) = m \<and> \<not> po_notified w)"
proof (intro conjI subsetI allI)
  show "w \<in> {w. length (po_starting w) \<le> max n 1 \<and> po_avail w + length (po_starting w) = max n 1}"
    if "w \<in> {w. pool_reachable follow n w}" for w
  proof -
    have "po_avail w + length (po_starting w) = max n 1" using pool_invariant [of follow n w] that by blast
    then show ?thesis by (simp del: max_def)
  qed
  show "w \<in> {w. po_root_cancelled w \<and> follow}"
    if "w \<in> {w. pool_reachable follow n w \<and> po_notified w}" for w
    using pool_invariant [of follow n w] that by blast
  show "\<exists>w. pool_reachable follow n w \<and> length (po_streaming w) = m \<and> \<not> po_notified w" for m
    using pool_streams [of follow n m] by blast
qed

end
