(* ===== verification/Oneshot.thy ===== *)
theory Oneshot
  imports Forward Attach
begin

text \<open>
  A one-shot run (\<open>--no-follow\<close>): the attach tasks of the snapshot's streams and the
  multiplexer, interleaved.  The tasks (\<open>runtime/attach.rs\<close>) hold the sending side of the command
  channel and return only after their stream has ended or was dropped; \<open>runtime/run.rs\<close> drops
  its own sender after the snapshot, so the multiplexer sees the channel closed exactly when the
  last task has returned.
\<close>

section \<open>Tasks, command channel and multiplexer\<close>

text \<open>An attach task: opening its stream, waiting for the end of the stream it has added, returned
  without a stream, or returned after its stream.\<close>

datatype attach_task = TkStarting | TkStreaming "item list" | TkFailed | TkFinished "item list"

definition mux_channel_capacity :: nat where
  "mux_channel_capacity = 256"

record oneshot =
  os_tasks :: "source_key \<Rightarrow> attach_task option"
  os_cmds :: "mux_cmd list"
  os_mux :: mux_state
  os_acts :: "mux_act list"
  os_mux_done :: bool
  os_cancelled :: bool
  os_pipe_gone :: bool

definition oneshot_init :: "source_key list \<Rightarrow> counters \<Rightarrow> oneshot" where
  "oneshot_init keys c =
     \<lparr>os_tasks = (\<lambda>k. if k \<in> set keys then Some TkStarting else None), os_cmds = [], os_mux = mux_init c,
      os_acts = [], os_mux_done = False, os_cancelled = False, os_pipe_gone = False\<rparr>"

text \<open>What the receiver of the command channel may find.  It may also find nothing although there
  is something, when tokio makes the task yield.\<close>

definition task_returned :: "attach_task \<Rightarrow> bool" where
  "task_returned t = (case t of TkFailed \<Rightarrow> True | TkFinished _ \<Rightarrow> True | _ \<Rightarrow> False)"

definition channel_gives :: "oneshot \<Rightarrow> mux_recv \<Rightarrow> bool" where
  "channel_gives w r =
     (case r of
        RecvPending \<Rightarrow> True
      | RecvCmd cmd \<Rightarrow> os_cmds w \<noteq> [] \<and> hd (os_cmds w) = cmd
      | RecvClosed \<Rightarrow> os_cmds w = [] \<and> (\<forall>k t. os_tasks w k = Some t \<longrightarrow> task_returned t))"

text \<open>A stream is out of the multiplexer's hands once it is neither queued nor in the map, or the
  multiplexer has returned and dropped its map.\<close>

definition stream_gone :: "oneshot \<Rightarrow> source_key \<Rightarrow> bool" where
  "stream_gone w k \<longleftrightarrow> os_mux_done w \<or>
     (k \<notin> fst ` set (mx_streams (os_mux w)) \<and> (\<forall>s. MuxAdd k s \<notin> set (os_cmds w)))"

text \<open>A turn of the multiplexer; it takes the command it has received from the channel.\<close>

definition mux_turn :: "mux_wake \<Rightarrow> mux_act list \<Rightarrow> mux_state \<Rightarrow> bool \<Rightarrow> oneshot \<Rightarrow> oneshot" where
  "mux_turn wk acts m go w =
     w\<lparr>os_cmds := (if \<not> mw_cancelled wk \<and> (\<exists>cmd. mw_recv wk = RecvCmd cmd) then tl (os_cmds w) else os_cmds w),
       os_mux := m, os_acts := os_acts w @ acts, os_mux_done := \<not> go\<rparr>"

inductive os_step :: "backpressure_policy \<Rightarrow> oneshot \<Rightarrow> oneshot \<Rightarrow> bool" for policy where
  OsOpened: "os_tasks w k = Some TkStarting \<Longrightarrow> \<not> os_mux_done w \<Longrightarrow> length (os_cmds w) < mux_channel_capacity \<Longrightarrow>
    os_step policy w (w\<lparr>os_tasks := (os_tasks w)(k := Some (TkStreaming s)), os_cmds := os_cmds w @ [MuxAdd k s]\<rparr>)"
| OsFailed: "os_tasks w k = Some TkStarting \<Longrightarrow>
    os_step policy w (w\<lparr>os_tasks := (os_tasks w)(k := Some TkFailed)\<rparr>)"
| OsEnded: "os_tasks w k = Some (TkStreaming s) \<Longrightarrow> stream_gone w k \<Longrightarrow>
    os_step policy w (w\<lparr>os_tasks := (os_tasks w)(k := Some (TkFinished s))\<rparr>)"
| OsMux: "\<not> os_mux_done w \<Longrightarrow> channel_gives w (mw_recv wk) \<Longrightarrow>
    (mw_cancelled wk \<or> mw_cancelled_sending wk \<Longrightarrow> os_cancelled w) \<Longrightarrow>
    (mw_chan wk = ChanClosed \<Longrightarrow> os_pipe_gone w) \<Longrightarrow>
    mux_iter policy wk (os_mux w) = (acts, m, go) \<Longrightarrow>
    os_step policy w (mux_turn wk acts m go w)"
| OsCancel: "os_step policy w (w\<lparr>os_cancelled := True\<rparr>)"
| OsPipeGone: "os_step policy w (w\<lparr>os_pipe_gone := True\<rparr>)"

inductive_cases os_stepE: "os_step policy w w'"

inductive os_reachable :: "backpressure_policy \<Rightarrow> source_key list \<Rightarrow> counters \<Rightarrow> oneshot \<Rightarrow> bool"
  for policy keys c where
  OrInit: "os_reachable policy keys c (oneshot_init keys c)"
| OrStep: "os_reachable policy keys c w \<Longrightarrow> os_step policy w w' \<Longrightarrow> os_reachable policy keys c w'"

section \<open>Every stream is delivered\<close>

text \<open>The streams queued for a key.\<close>

definition queued :: "source_key \<Rightarrow> mux_cmd list \<Rightarrow> item list list" where
  "queued k = List.map_filter (\<lambda>cmd. case cmd of MuxAdd k' s \<Rightarrow> if k' = k then Some s else None | _ \<Rightarrow> None)"

lemma queued_simps [simp]:
  "queued k [] = []" "queued k (xs @ ys) = queued k xs @ queued k ys"
  "queued k (MuxAdd k' s # cmds) = (if k' = k then s # queued k cmds else queued k cmds)"
  "queued k (MuxRemove k' # cmds) = queued k cmds"
  by (simp_all add: queued_def map_filter_def)

lemma queued_Nil_iff: "queued k cmds = [] \<longleftrightarrow> (\<forall>s. MuxAdd k s \<notin> set cmds)"
  by (induction cmds) (auto simp: queued_def map_filter_def split: mux_cmd.splits if_splits)

text \<open>
  Where a stream is, from its task, the streams queued and attached for its key, whether the
  multiplexer holds one, what remains of it and what was taken: not yet opened, queued, or in
  the hands of the multiplexer, which has taken what it no longer holds.
\<close>

fun delivery_ok ::
  "attach_task option \<Rightarrow> item list list \<Rightarrow> item list list \<Rightarrow> bool \<Rightarrow> item list \<Rightarrow> item list \<Rightarrow> bool" where
  "delivery_ok (Some (TkStreaming s)) qs atts held rest got \<longleftrightarrow>
     qs = [s] \<and> atts = [] \<and> \<not> held \<and> rest = [] \<and> got = [] \<or> qs = [] \<and> atts = [s] \<and> s = got @ rest"
| "delivery_ok (Some (TkFinished s)) qs atts held rest got \<longleftrightarrow>
     qs = [] \<and> atts = [s] \<and> \<not> held \<and> rest = [] \<and> got = s"
| "delivery_ok _ qs atts held rest got \<longleftrightarrow> qs = [] \<and> atts = [] \<and> \<not> held \<and> rest = [] \<and> got = []"

definition stream_ok :: "oneshot \<Rightarrow> source_key \<Rightarrow> bool" where
  "stream_ok w k =
     delivery_ok (os_tasks w k) (queued k (os_cmds w)) (attached k (os_acts w))
       (k \<in> fst ` set (mx_streams (os_mux w))) (remaining k (os_mux w)) (taken_from k (os_acts w))"

lemma delivery_ok_poll:
  assumes "delivery_ok t qs atts held (got2 @ rest) got" and "held' \<Longrightarrow> held"
  shows "delivery_ok t qs atts held' rest (got @ got2)"
proof (cases t)
  case (Some t')
  with assms show ?thesis by (cases t') auto
qed (use assms in auto)

lemma delivery_ok_add:
  assumes "delivery_ok t (s # qs) atts held rest got"
  shows "delivery_ok t qs (atts @ [s]) True s got"
proof (cases t)
  case (Some t')
  with assms show ?thesis by (cases t') auto
qed (use assms in auto)

lemma delivery_ok_opened:
  assumes "delivery_ok (Some TkStarting) qs atts held rest got"
  shows "delivery_ok (Some (TkStreaming s)) (qs @ [s]) atts held rest got"
    and "delivery_ok (Some TkFailed) qs atts held rest got"
  using assms by simp_all

lemma delivery_ok_ended:
  assumes "delivery_ok (Some (TkStreaming s)) [] atts False [] got"
  shows "delivery_ok (Some (TkFinished s)) [] atts False [] got"
  using assms by simp

lemma stream_ok_flags [simp]:
  "stream_ok (w\<lparr>os_mux_done := b\<rparr>) k = stream_ok w k"
  "stream_ok (w\<lparr>os_cancelled := b\<rparr>) k = stream_ok w k"
  "stream_ok (w\<lparr>os_pipe_gone := b\<rparr>) k = stream_ok w k"
  by (simp_all add: stream_ok_def)

lemma stream_ok_other_task:
  "k' \<noteq> k \<Longrightarrow> stream_ok (w\<lparr>os_tasks := (os_tasks w)(k := t)\<rparr>) k' = stream_ok w k'"
  by (simp add: stream_ok_def)

lemma task_returned_simps [simp]:
  "\<not> task_returned TkStarting" "\<not> task_returned (TkStreaming s)" "task_returned TkFailed" "task_returned (TkFinished s)"
  by (simp_all add: task_returned_def)

definition os_ok :: "backpressure_policy \<Rightarrow> oneshot \<Rightarrow> bool" where
  "os_ok policy w \<longleftrightarrow>
     mux_ok (os_mux w) \<and> (\<forall>k. stream_ok w k) \<and> (\<forall>k. MuxRemove k \<notin> set (os_cmds w))
   \<and> taken (os_acts w) = disposed (os_acts w)
   \<and> (policy = BpBlocking \<longrightarrow> dropped (os_acts w) = [] \<and> sent (os_acts w) = disposed (os_acts w))
   \<and> (os_mux_done w \<longrightarrow> os_cmds w = [] \<and> (\<forall>k t. os_tasks w k = Some t \<longrightarrow> task_returned t))"

lemma remaining_absent: "k \<notin> fst ` set (mx_streams st) \<Longrightarrow> remaining k st = []"
  by (simp add: remaining_def map_of_eq_None_iff [THEN iffD2])

lemma mux_iter_poll:
  assumes "mux_ok st" and "mux_iter policy wk st = (acts, st', go)" and "mw_recv wk = RecvPending"
    and "\<not> mw_cancelled wk" and "\<not> mw_cancelled_sending wk" and "mw_chan wk \<noteq> ChanClosed"
  shows "go" and "attached k acts = []" and "remaining k st = taken_from k acts @ remaining k st'"
    and "k \<notin> fst ` set (mx_streams st) \<Longrightarrow> k \<notin> fst ` set (mx_streams st')"
proof -
  obtain r streams' where n: "stream_map_next wk (mx_streams st) = (r, streams')" by fastforce
  let ?d = "drop_ended (mw_ended wk) (mx_streams st)"
  have d: "fst ` set ?d \<subseteq> fst ` set (mx_streams st)" by (auto simp: drop_ended_def)
  have "fst ` set (AList.update k' rest ?d) = fst ` set ?d" if "map_of ?d k' = Some x" for k' rest x
    using that by (metis dom_update domI dom_map_of_conv_image_fst insert_absorb insert_is_Un)
  moreover have "streams' = ?d \<or> (\<exists>k' row rest. map_of ?d k' = Some (row # rest) \<and> streams' = AList.update k' rest ?d)"
    using n unfolding stream_map_next_def Let_def by (simp split: option.splits list.splits) blast
  ultimately have "fst ` set streams' = fst ` set ?d" by metis
  then have keys: "fst ` set streams' \<subseteq> fst ` set (mx_streams st)" using d by simp
  have i: "go \<and> attached k acts = [] \<and> (mx_streams st' = streams' \<or> mx_streams st' = mx_streams st)
      \<and> acts \<noteq> [Detached k]"
    using assms(2-6) n
    by (auto simp: mux_iter_def Let_def split: if_splits option.splits prod.splits
        backpressure_policy.splits channel_state.splits)
  then show "go" "attached k acts = []" by simp_all
  show "remaining k st = taken_from k acts @ remaining k st'"
    using mux_iter_stream [OF assms(1,2), of k] i by auto
  show "k \<notin> fst ` set (mx_streams st) \<Longrightarrow> k \<notin> fst ` set (mx_streams st')"
    using i keys by auto
qed

lemma stream_ok_poll:
  assumes "stream_ok w k" and "attached k acts = []"
    and "remaining k (os_mux w) = taken_from k acts @ remaining k m"
    and "k \<notin> fst ` set (mx_streams (os_mux w)) \<Longrightarrow> k \<notin> fst ` set (mx_streams m)"
  shows "stream_ok (w\<lparr>os_mux := m, os_acts := os_acts w @ acts\<rparr>) k"
  using delivery_ok_poll assms by (simp add: stream_ok_def) blast

lemma stream_ok_add:
  assumes "\<And>k. stream_ok w k" and "os_cmds w = MuxAdd k' s # cmds"
    and "mx_streams m = AList.update k' s (mx_streams (os_mux w))"
  shows "stream_ok (w\<lparr>os_cmds := cmds, os_mux := m, os_acts := os_acts w @ [Attached k' s]\<rparr>) k"
proof (cases "k = k'")
  case False
  have "remaining k m = remaining k (os_mux w)"
    "k \<in> fst ` set (mx_streams m) \<longleftrightarrow> k \<in> fst ` set (mx_streams (os_mux w))"
    using False assms(3) by (simp_all add: remaining_def update_conv' dom_update)
  with False assms(1) [of k] assms(2) show ?thesis by (simp add: stream_ok_def)
next
  case True
  have "remaining k m = s" "k \<in> fst ` set (mx_streams m)"
    using True assms(3) by (simp_all add: remaining_def update_conv' dom_update)
  with True assms(1) [of k] assms(2) show ?thesis by (simp add: stream_ok_def delivery_ok_add)
qed

lemma os_ok_mux:
  assumes ok: "os_ok policy w" and "\<not> os_mux_done w" and "\<not> os_cancelled w" and "\<not> os_pipe_gone w"
    and gives: "channel_gives w (mw_recv wk)"
    and c: "mw_cancelled wk \<or> mw_cancelled_sending wk \<Longrightarrow> os_cancelled w"
    and g: "mw_chan wk = ChanClosed \<Longrightarrow> os_pipe_gone w"
    and i: "mux_iter policy wk (os_mux w) = (acts, m, go)"
  shows "os_ok policy (mux_turn wk acts m go w)"
proof -
  have live: "\<not> mw_cancelled wk" "\<not> mw_cancelled_sending wk" "mw_chan wk \<noteq> ChanClosed"
    using assms(3,4) c g by blast+
  have m: "mux_ok (os_mux w)" and s: "\<And>k. stream_ok w k" and r: "\<And>k. MuxRemove k \<notin> set (os_cmds w)"
    using ok by (simp_all add: os_ok_def)
  have m': "mux_ok m" by (rule mux_iter_ok [OF m i])
  note rows = mux_iter_rows [OF i]
  show ?thesis
  proof (cases "mw_recv wk")
    case RecvPending
    note poll = mux_iter_poll [OF m i RecvPending live]
    have "stream_ok (w\<lparr>os_mux := m, os_acts := os_acts w @ acts\<rparr>) k" for k
      by (rule stream_ok_poll [OF s]) (fact poll(2), fact poll(3), fact poll(4))
    then have "stream_ok (w\<lparr>os_mux := m, os_acts := os_acts w @ acts, os_mux_done := False\<rparr>) k" for k
      by simp
    with ok rows poll(1) m' RecvPending show ?thesis by (auto simp: os_ok_def mux_turn_def)
  next
    case RecvClosed
    with i live have "acts = []" "m = os_mux w" "\<not> go" by (auto simp: mux_iter_def)
    moreover have "os_ok policy (w\<lparr>os_mux_done := True\<rparr>)"
      using ok gives RecvClosed s by (simp add: os_ok_def channel_gives_def)
    ultimately show ?thesis using RecvClosed by (simp add: mux_turn_def)
  next
    case (RecvCmd cmd)
    with gives obtain cmds where cmds: "os_cmds w = cmd # cmds"
      by (auto simp: channel_gives_def neq_Nil_conv)
    with r obtain k' st where cmd: "cmd = MuxAdd k' st" by (cases cmd) auto
    from i RecvCmd live cmd have acts: "acts = [Attached k' st]" "go"
      and ms: "mx_streams m = AList.update k' st (mx_streams (os_mux w))"
      by (auto simp: mux_iter_def mux_command_def publish_active_def)
    have "stream_ok (w\<lparr>os_cmds := cmds, os_mux := m, os_acts := os_acts w @ [Attached k' st], os_mux_done := False\<rparr>) k" for k
      using stream_ok_add [OF s, of k' st cmds m k] cmds cmd ms by simp
    moreover have "MuxRemove k \<notin> set cmds" for k using r [of k] cmds by simp
    ultimately show ?thesis using ok m' acts cmds live RecvCmd by (simp add: os_ok_def mux_turn_def)
  qed
qed

lemma os_ok_task:
  assumes ok: "os_ok policy w" and t: "os_tasks w k = Some TkStarting" and "\<not> os_mux_done w"
  shows "os_ok policy (w\<lparr>os_tasks := (os_tasks w)(k := Some (TkStreaming s)), os_cmds := os_cmds w @ [MuxAdd k s]\<rparr>)"
    and "os_ok policy (w\<lparr>os_tasks := (os_tasks w)(k := Some TkFailed)\<rparr>)"
proof -
  have s: "\<And>k. stream_ok w k" using ok by (simp add: os_ok_def)
  have d: "delivery_ok (Some TkStarting) (queued k (os_cmds w)) (attached k (os_acts w))
      (k \<in> fst ` set (mx_streams (os_mux w))) (remaining k (os_mux w)) (taken_from k (os_acts w))"
    using s [of k] t by (simp add: stream_ok_def del: delivery_ok.simps)
  have "stream_ok (w\<lparr>os_tasks := (os_tasks w)(k := Some (TkStreaming s)), os_cmds := os_cmds w @ [MuxAdd k s]\<rparr>) k'" for k'
    using delivery_ok_opened(1) [OF d, of s] s [of k'] by (cases "k' = k") (simp_all add: stream_ok_def del: delivery_ok.simps)
  with ok assms(3) show
    "os_ok policy (w\<lparr>os_tasks := (os_tasks w)(k := Some (TkStreaming s)), os_cmds := os_cmds w @ [MuxAdd k s]\<rparr>)"
    by (simp add: os_ok_def)
  have "stream_ok (w\<lparr>os_tasks := (os_tasks w)(k := Some TkFailed)\<rparr>) k'" for k'
    using delivery_ok_opened(2) [OF d] s [of k'] by (cases "k' = k") (simp_all add: stream_ok_def del: delivery_ok.simps)
  with ok assms(3) show "os_ok policy (w\<lparr>os_tasks := (os_tasks w)(k := Some TkFailed)\<rparr>)"
    by (simp add: os_ok_def)
qed

lemma os_ok_ended:
  assumes ok: "os_ok policy w" and t: "os_tasks w k = Some (TkStreaming s)" and gone: "stream_gone w k"
  shows "os_ok policy (w\<lparr>os_tasks := (os_tasks w)(k := Some (TkFinished s))\<rparr>)"
proof -
  have s: "\<And>k. stream_ok w k" using ok by (simp add: os_ok_def)
  have nd: "\<not> os_mux_done w"
    using ok t unfolding os_ok_def by (metis task_returned_simps(2))
  with gone have g: "k \<notin> fst ` set (mx_streams (os_mux w))" "queued k (os_cmds w) = []"
    by (auto simp: stream_gone_def queued_Nil_iff)
  have "delivery_ok (Some (TkStreaming s)) [] (attached k (os_acts w)) False [] (taken_from k (os_acts w))"
    using s [of k] t g remaining_absent [OF g(1)] by (simp add: stream_ok_def del: delivery_ok.simps)
  from delivery_ok_ended [OF this]
  have "stream_ok (w\<lparr>os_tasks := (os_tasks w)(k := Some (TkFinished s))\<rparr>) k'" for k'
    using s [of k'] g remaining_absent [OF g(1)]
    by (cases "k' = k") (simp_all add: stream_ok_def del: delivery_ok.simps)
  with ok nd show ?thesis by (simp add: os_ok_def)
qed

lemma os_ok_reachable:
  assumes "os_reachable policy keys c w"
  shows "os_cancelled w \<or> os_pipe_gone w \<or> os_ok policy w"
  using assms
proof induction
  case OrInit
  have "stream_ok (oneshot_init keys c) k" for k
    by (simp add: stream_ok_def oneshot_init_def remaining_def mux_init_def)
  then show ?case by (simp add: os_ok_def oneshot_init_def)
next
  case (OrStep w w')
  show ?case
  proof (cases "os_cancelled w \<or> os_pipe_gone w")
    case True
    then show ?thesis using OrStep.hyps(2) by (elim os_stepE) (auto simp: mux_turn_def)
  next
    case False
    with OrStep.IH have ok: "os_ok policy w" by simp
    from OrStep.hyps(2) show ?thesis
    proof (elim os_stepE)
      fix k assume "w' = w\<lparr>os_tasks := (os_tasks w)(k \<mapsto> TkFailed)\<rparr>" "os_tasks w k = Some TkStarting"
      moreover have "\<not> os_mux_done w"
        using ok \<open>os_tasks w k = Some TkStarting\<close> unfolding os_ok_def by (metis task_returned_simps(1))
      ultimately show ?thesis using os_ok_task(2) [OF ok] by simp
    next
      fix wk acts m go
      assume w': "w' = mux_turn wk acts m go w" and nd: "\<not> os_mux_done w"
        and gives: "channel_gives w (mw_recv wk)"
        and c: "mw_cancelled wk \<or> mw_cancelled_sending wk \<Longrightarrow> os_cancelled w"
        and g: "mw_chan wk = ChanClosed \<Longrightarrow> os_pipe_gone w"
        and i: "mux_iter policy wk (os_mux w) = (acts, m, go)"
      have "os_ok policy (mux_turn wk acts m go w)"
        by (rule os_ok_mux [OF ok nd _ _ gives c g i]) (use False in auto)
      then show ?thesis by (simp add: w')
    qed (use False ok os_ok_task(1) os_ok_ended in \<open>simp_all\<close>)
  qed
qed

lemma os_complete:
  assumes "os_reachable policy keys c w" and "os_mux_done w" and "\<not> os_cancelled w" and "\<not> os_pipe_gone w"
  shows "(\<forall>k. case os_tasks w k of
        None \<Rightarrow> taken_from k (os_acts w) = []
      | Some t \<Rightarrow> (case t of TkFailed \<Rightarrow> taken_from k (os_acts w) = []
                         | TkFinished s \<Rightarrow> taken_from k (os_acts w) = s | _ \<Rightarrow> False))
    \<and> taken (os_acts w) = disposed (os_acts w)
    \<and> (policy = BpLossy \<or> sent (os_acts w) = taken (os_acts w) \<and> dropped (os_acts w) = [])"
proof -
  have ok: "os_ok policy w" using os_ok_reachable [OF assms(1)] assms(3,4) by blast
  have "case os_tasks w k of
        None \<Rightarrow> taken_from k (os_acts w) = []
      | Some t \<Rightarrow> (case t of TkFailed \<Rightarrow> taken_from k (os_acts w) = []
                         | TkFinished s \<Rightarrow> taken_from k (os_acts w) = s | _ \<Rightarrow> False)" for k
  proof (cases "os_tasks w k")
    case None
    have "stream_ok w k" using ok by (simp add: os_ok_def)
    with None show ?thesis by (simp add: stream_ok_def)
  next
    case (Some t)
    have s: "stream_ok w k" and r: "task_returned t" using ok assms(2) Some by (auto simp: os_ok_def)
    show ?thesis using s r Some by (cases t) (simp_all add: stream_ok_def)
  qed
  then show ?thesis using ok by (cases policy) (simp_all add: os_ok_def)
qed

text \<open>
  C5: a one-shot run delivers everything: however the attach tasks and the multiplexer
  interleave, once the multiplexer has returned without the run having been cancelled and
  without the pipeline having gone away, every attach task has returned, and the rows sent to
  the pipeline are an interleaving of the complete streams: for every stream that was opened,
  exactly its rows, in its order; nothing is dropped without \<open>--lossy\<close>.
\<close>

theorem one_shot_delivers_everything:
  assumes "os_reachable policy keys c w" and "os_mux_done w" and "\<not> os_cancelled w" and "\<not> os_pipe_gone w"
  shows "(\<forall>k. case os_tasks w k of
        None \<Rightarrow> taken_from k (os_acts w) = []
      | Some t \<Rightarrow> (case t of TkFailed \<Rightarrow> taken_from k (os_acts w) = []
                         | TkFinished s \<Rightarrow> taken_from k (os_acts w) = s | _ \<Rightarrow> False))
    \<and> taken (os_acts w) = disposed (os_acts w)
    \<and> (policy = BpLossy \<or> sent (os_acts w) = taken (os_acts w) \<and> dropped (os_acts w) = [])"
  by (rule os_complete [OF assms])

text \<open>A run with one stream of one row: opened, added, read, ended, and the channel closed.\<close>

definition example_counters :: counters where
  "example_counters =
     \<lparr>ct_stats = with_mux_policy False BpBlocking, ct_counting = False, ct_mux_dropped = 0,
      ct_dropped_total = 0, ct_last_warn_ms = 0\<rparr>"

definition example_key :: source_key where
  "example_key = SourceKey ''ctx'' ''default'' ''web'' ''app'' ''u1''"

definition example_wake :: "mux_recv \<Rightarrow> source_key set \<Rightarrow> source_key option \<Rightarrow> mux_wake" where
  "example_wake r ended p =
     \<lparr>mw_cancelled = False, mw_recv = r, mw_ended = ended, mw_poll = p, mw_cancelled_sending = False,
      mw_chan = ChanOk\<rparr>"

definition example_final :: oneshot where
  "example_final =
     \<lparr>os_tasks = (\<lambda>k. if k = example_key then Some (TkFinished [Inr example_event]) else None), os_cmds = [],
      os_mux = mux_init example_counters,
      os_acts = [Attached example_key [Inr example_event], Took example_key (Inr example_event), SentRow (Inr example_event)],
      os_mux_done = True, os_cancelled = False, os_pipe_gone = False\<rparr>"

lemma os_turn:
  assumes "os_reachable policy keys c w" and "\<not> os_mux_done w" and "channel_gives w r"
    and "mux_iter policy (example_wake r ended p) (os_mux w) = (acts, m, go)"
  shows "os_reachable policy keys c (mux_turn (example_wake r ended p) acts m go w)"
  by (rule OrStep [OF assms(1)], rule OsMux) (use assms in \<open>simp_all add: example_wake_def\<close>)

lemma example_final_reachable: "os_reachable BpBlocking [example_key] example_counters example_final"
proof -
  let ?k = example_key and ?s = "[Inr example_event] :: item list"
  let ?w = "\<lambda>t cmds streams acts. \<lparr>os_tasks = (\<lambda>k. if k = ?k then Some t else None), os_cmds = cmds,
      os_mux = \<lparr>mx_streams = streams, mx_counters = example_counters\<rparr>, os_acts = acts,
      os_mux_done = False, os_cancelled = False, os_pipe_gone = False\<rparr>"
  have upd: "(\<lambda>k. if k = ?k then Some t else None)(?k := Some t') = (\<lambda>k. if k = ?k then Some t' else None)" for t t'
    by auto
  have "os_reachable BpBlocking [?k] example_counters (?w TkStarting [] [] [])"
    using OrInit [of BpBlocking "[?k]" example_counters] by (simp add: oneshot_init_def mux_init_def)
  from OrStep [OF this OsOpened [where k = ?k and s = ?s]]
  have "os_reachable BpBlocking [?k] example_counters (?w (TkStreaming ?s) [MuxAdd ?k ?s] [] [])"
    by (simp add: mux_channel_capacity_def upd)
  from os_turn [OF this, of "RecvCmd (MuxAdd ?k ?s)" "{}" None]
  have "os_reachable BpBlocking [?k] example_counters (?w (TkStreaming ?s) [] [(?k, ?s)] [Attached ?k ?s])"
    by (simp add: channel_gives_def mux_iter_def example_wake_def mux_command_def publish_active_def
        counted_def example_counters_def mux_turn_def)
  from os_turn [OF this, of RecvPending "{}" "Some ?k"]
  have "os_reachable BpBlocking [?k] example_counters
      (?w (TkStreaming ?s) [] [(?k, [])] [Attached ?k ?s, Took ?k (Inr example_event), SentRow (Inr example_event)])"
    by (simp add: channel_gives_def mux_iter_def example_wake_def stream_map_next_def drop_ended_def mux_turn_def)
  from os_turn [OF this, of RecvPending "{?k}" None]
  have "os_reachable BpBlocking [?k] example_counters
      (?w (TkStreaming ?s) [] [] [Attached ?k ?s, Took ?k (Inr example_event), SentRow (Inr example_event)])"
    by (simp add: channel_gives_def mux_iter_def example_wake_def stream_map_next_def drop_ended_def mux_turn_def)
  from OrStep [OF this OsEnded [where k = ?k and s = ?s]]
  have "os_reachable BpBlocking [?k] example_counters
      (?w (TkFinished ?s) [] [] [Attached ?k ?s, Took ?k (Inr example_event), SentRow (Inr example_event)])"
    by (simp add: stream_gone_def upd)
  from os_turn [OF this, where r = RecvClosed and ended = "{}" and p = None and acts = "[]" and go = False] show ?thesis
    by (simp add: channel_gives_def mux_iter_def example_wake_def mux_turn_def example_final_def mux_init_def
        split: if_splits)
qed

theorem one_shot_delivers_everything_witness:
  "taken_from example_key (os_acts example_final) = [Inr example_event] \<and> sent (os_acts example_final) = taken (os_acts example_final)"
  using one_shot_delivers_everything [OF example_final_reachable]
  by (auto simp: example_final_def dest: spec [of _ example_key])

end
