(* ===== verification/Run.thy ===== *)
theory Run
  imports Oneshot Cli
begin

text \<open>
  The orchestrator (\<open>runtime/run.rs\<close>) with the assembly of the channels
  (\<open>runtime/mux_forward_core.rs\<close>): the set-up of a run with its errors in the order of the
  code, the wait for its end, the bounded joins of its tasks, and its result.  The rows that
  the forward task meets, the messages and the joins are given by the environment of the run.
\<close>

section \<open>Set-up\<close>

datatype api_scope = ScopeAll | ScopeNamespace string

definition api_scope_of :: "core_run_config \<Rightarrow> api_scope" where
  "api_scope_of cfg =
     (if cfg_all_namespaces cfg then ScopeAll
      else if length (cfg_namespaces cfg) = 1 then ScopeNamespace (cfg_namespaces cfg ! 0)
      else ScopeAll)"

text \<open>The third-party code of a run: regexes and jq, the API server, and the renderer's libraries.\<close>

record run_libs =
  ru_regex :: regex_lib
  ru_highlight :: "string \<Rightarrow> string + match_finder"
  ru_jq :: jq_compiler
  ru_workloads :: workload_api
  ru_list :: "api_scope \<Rightarrow> list_params \<Rightarrow> kube_error + pod_page"
  ru_render :: render_lib
  ru_json :: json_lib
  ru_sea :: "string \<Rightarrow> u64"

definition plan_config_of :: "core_run_config \<Rightarrow> pod_watch_plan_config" where
  "plan_config_of cfg =
     \<lparr>wpc_query = cfg_query cfg, wpc_selector = cfg_selector cfg,
      wpc_field_selector = cfg_field_selector cfg, wpc_node = cfg_node cfg,
      wpc_namespaces = cfg_namespaces cfg, wpc_all_namespaces = cfg_all_namespaces cfg\<rparr>"

record prepared_run =
  pr_plan :: pod_watch_plan
  pr_pipeline :: pipeline_stages
  pr_scope :: api_scope
  pr_admission :: watch_admission_policy
  pr_permits :: nat
  pr_formatter :: line_formatter
  pr_pods :: "pod list option"

definition prepare_run ::
  "run_libs \<Rightarrow> context_name \<Rightarrow> core_run_config \<Rightarrow> run_error + prepared_run" where
  "prepare_run libs context_name cfg =
     bind_result (map_err RePodList (pod_watch_plan_build (ru_regex libs) (ru_workloads libs) (plan_config_of cfg))) (\<lambda>plan.
     bind_result (from_run_config (ru_regex libs) (ru_jq libs) cfg) (\<lambda>pipeline.
     bind_result (map_err (\<lambda>e. ReOther (''invalid watch admission regex: '' @ e))
       (admission_try_new (ru_regex libs) context_name (pwp_pod_regex plan) (cfg_exclude_pod cfg)
          (cfg_namespaces cfg) (cfg_all_namespaces cfg) (cfg_container cfg) (cfg_exclude_container cfg)
          (cfg_container_discovery cfg) (cfg_pod_condition cfg))) (\<lambda>admission.
     bind_result (map_err (\<lambda>re. ReOther (''invalid highlight/include regex: '' @ re))
       (build_line_formatter (ru_render libs) (ru_highlight libs) (cfg_formatter cfg) (cfg_include cfg)
          (cfg_highlight cfg))) (\<lambda>formatter.
     bind_result (if plr_follow (cfg_pod_log cfg) then Inr None
                  else bind_result (list_pods_paginated (ru_list libs (api_scope_of cfg)) (pwp_list_params plan))
                         (\<lambda>pods. Inr (Some pods))) (\<lambda>pods.
     Inr \<lparr>pr_plan = plan, pr_pipeline = pipeline, pr_scope = api_scope_of cfg, pr_admission = admission,
          pr_permits = build_log_request_semaphore (fwd_max_log_requests (cfg_fwd cfg)),
          pr_formatter = formatter, pr_pods = pods\<rparr>)))))"

definition should_track_cursors :: "bool \<Rightarrow> bool \<Rightarrow> bool" where
  "should_track_cursors cursor_reconnect follow \<longleftrightarrow> cursor_reconnect \<and> follow"

definition raw_channel_capacity :: "runtime_fwd_config \<Rightarrow> nat" where
  "raw_channel_capacity fwd = max (fwd_buffer_size fwd) 1"

text \<open>tokio panics on a channel without room, so the capacities must not be zero.\<close>

lemma channel_capacities_positive:
  "0 < raw_channel_capacity fwd \<and> 0 < render_channel_capacity fwd \<and> 0 < mux_channel_capacity"
  by (simp add: raw_channel_capacity_def render_channel_capacity_def mux_channel_capacity_def)

section \<open>The end of a run\<close>

datatype join_error = JoinCancelled | JoinPanicked string

fun join_error_display :: "join_error \<Rightarrow> string" where
  "join_error_display JoinCancelled = ''task was cancelled''"
| "join_error_display (JoinPanicked e) = ''task panicked: '' @ e"

text \<open>
  What a bounded join meets: the result if the task is finished at once, or within the grace
  period, or within another one after it was aborted.
\<close>

datatype join_wake =
  JoinAtOnce "join_error option" | JoinInTime "join_error option" | JoinAborted "join_error option" | JoinNever

fun shutdown_join_bounded :: "join_wake \<Rightarrow> join_error option" where
  "shutdown_join_bounded (JoinAtOnce r) = r"
| "shutdown_join_bounded (JoinInTime r) = r"
| "shutdown_join_bounded (JoinAborted r) = r"
| "shutdown_join_bounded JoinNever = None"

text \<open>
  How the wait ends.  When following, the biased select looks at the limit notifier before the
  root token; in a one-shot run it takes either the join of the pipeline task or the token.
  Either way \<open>run\<close> goes on only when the root token is cancelled.
\<close>

datatype run_wait =
  WaitFollow (wf_limit_message: bool)
| WaitOneShot (wo_pipe_joined: "join_error option option")

definition limit_hit :: "run_wait \<Rightarrow> bool" where
  "limit_hit wt = (case wt of WaitFollow msg \<Rightarrow> msg | WaitOneShot _ \<Rightarrow> False)"

text \<open>The error of the pipeline task: from the wait if it was joined there, else from the bounded
  join, where a cancelled task does not count.\<close>

definition pipe_join_error :: "run_wait \<Rightarrow> join_wake \<Rightarrow> join_error option" where
  "pipe_join_error wt jw =
     (case wt of
        WaitOneShot (Some r) \<Rightarrow> r
      | _ \<Rightarrow> (case shutdown_join_bounded jw of
               Some e \<Rightarrow> if e \<noteq> JoinCancelled then Some e else None
             | None \<Rightarrow> None))"

definition run_result ::
  "run_wait \<Rightarrow> join_wake \<Rightarrow> bool \<Rightarrow> bool \<Rightarrow> run_error + run_outcome" where
  "run_result wt jw triggered source_errors =
     (case pipe_join_error wt jw of
        Some e \<Rightarrow> Inl (ReOther (''pipeline forward task failed: '' @ join_error_display e))
      | None \<Rightarrow>
          if limit_hit wt then Inl (ReOther ''max concurrent log streams reached (--max-log-requests)'')
          else if triggered then Inl ReExitOnTriggered
          else Inr \<lparr>ro_had_source_errors = source_errors\<rparr>)"

section \<open>A run\<close>

text \<open>What the environment of a run decides: what its forward task meets, how the wait ends, and
  how the pipeline task is joined.\<close>

record run_env =
  ren_wakes :: "prepared_run \<Rightarrow> fwd_wake list"
  ren_wait :: run_wait
  ren_join :: join_wake

definition forward_of ::
  "run_libs \<Rightarrow> core_run_config \<Rightarrow> prepared_run \<Rightarrow> fwd_wake list \<Rightarrow> fwd_state \<times> bool" where
  "forward_of libs cfg pr wakes =
     forward_to_render (apply_pipeline (ru_json libs) (ru_sea libs) (pr_pipeline pr)) (fwd_lossy (cfg_fwd cfg))
       wakes (fwd_init exit_watch_new (counters_new (cfg_fwd cfg)))"

definition run_with_client ::
  "run_libs \<Rightarrow> run_env \<Rightarrow> context_name \<Rightarrow> core_run_config \<Rightarrow> run_error + run_outcome" where
  "run_with_client libs env context_name cfg =
     bind_result (prepare_run libs context_name cfg) (\<lambda>pr.
       let fs = fst (forward_of libs cfg pr (ren_wakes env pr))
       in run_result (ren_wait env) (ren_join env) (ew_triggered (fs_watch fs))
            (had_source_errors (ct_stats (fs_counters fs))))"

definition run_core ::
  "run_libs \<Rightarrow> run_env \<Rightarrow> (context_selector \<Rightarrow> context_error + 'client \<times> context_name) \<Rightarrow> core_run_config \<Rightarrow>
     run_error + run_outcome" where
  "run_core libs env client cfg =
     bind_result (map_err ReContext (client (cfg_context cfg)))
       (\<lambda>(_, context_name). run_with_client libs env context_name cfg)"

section \<open>The errors of the set-up\<close>

lemma bind_result_cases:
  assumes "bind_result r f = Inl e"
  obtains "r = Inl e" | a where "r = Inr a" and "f a = Inl e"
  using assms by (cases r) auto

text \<open>
  C22: after flags that pass validation the set-up of a run fails only for reasons no flag check
  could have found: the query or the API server (also while listing pods), or the combined
  regex of the highlights; the pipeline and the admission filters never fail to build.
\<close>

theorem setup_errors_after_validation:
  assumes "validate cx c = Inr ()" and "core_run_config_of cx c = Inr cfg"
    and "ru_regex libs = cx_regex cx" and "ru_jq libs = cx_jq cx"
  shows "case prepare_run libs context_name cfg of
      Inr pr \<Rightarrow> (pr_pods pr = None \<longleftrightarrow> plr_follow (cfg_pod_log cfg)) \<and> 1 \<le> pr_permits pr
    | Inl e \<Rightarrow> (\<exists>p. e = RePodList p) \<or> (\<exists>k. e = ReKube k)
        \<or> e = ReOther ''pod list pagination exceeded 1000 pages''
        \<or> (\<exists>re. e = ReOther (''invalid highlight/include regex: '' @ re))"
proof -
  from validated_config [OF assms(1)] assms(2) obtain p where
    p: "from_run_config (cx_regex cx) (cx_jq cx) cfg = Inr p" and
    re: "\<And>r. r \<in> set (cfg_exclude_pod cfg @ cfg_exclude_container cfg @ [cfg_container cfg]) \<Longrightarrow> \<exists>x. cx_regex cx r = Inr x"
    by fastforce
  have adm: "\<exists>wa. admission_try_new (cx_regex cx) name pod_re (cfg_exclude_pod cfg) nss all_ns (cfg_container cfg)
      (cfg_exclude_container cfg) disc cond = Inr wa" for name pod_re nss all_ns disc cond
  proof -
    obtain a b x where "collect_results (cx_regex cx) (cfg_exclude_pod cfg) = Inr a"
      "collect_results (cx_regex cx) (cfg_exclude_container cfg) = Inr b" "cx_regex cx (cfg_container cfg) = Inr x"
      using re collect_results_ok_iff [of "cx_regex cx"] by (metis Un_iff set_append list.set_intros(1))
    then show ?thesis by (simp add: admission_try_new_def)
  qed
  show ?thesis
  proof (cases "prepare_run libs context_name cfg")
    case (Inr pr)
    then show ?thesis
      by (auto simp: prepare_run_def bind_result_Inr_iff build_log_request_semaphore_def split: if_splits)
  next
    case (Inl e)
    have pods: "list_pods_paginated api ps = Inl e \<Longrightarrow>
        (\<exists>k. e = ReKube k) \<or> e = ReOther ''pod list pagination exceeded 1000 pages''" for api ps
      using list_pods_paginated_error [of api ps] by simp
    have "(\<exists>p. e = RePodList p) \<or> (\<exists>k. e = ReKube k)
        \<or> e = ReOther ''pod list pagination exceeded 1000 pages''
        \<or> (\<exists>re. e = ReOther (''invalid highlight/include regex: '' @ re))"
      using Inl unfolding prepare_run_def assms(3,4) p bind_result_simps
    proof (elim bind_result_cases, goal_cases)
      case (2 plan)
      then show ?case
        using adm [of context_name "pwp_pod_regex plan" "cfg_namespaces cfg" "cfg_all_namespaces cfg"
            "cfg_container_discovery cfg" "cfg_pod_condition cfg"] by auto
    qed (auto simp: map_err_Inl_iff dest!: pods split: if_splits elim!: bind_result_cases)
    then show ?thesis by (simp add: Inl)
  qed
qed

definition example_libs :: run_libs where
  "example_libs =
     \<lparr>ru_regex = (\<lambda>p. Inr (\<lambda>s. True)), ru_highlight = (\<lambda>p. Inr (\<lambda>line. [])),
      ru_jq = \<lparr>jc_load = Inl, jc_compile = Inl\<rparr>,
      ru_workloads = \<lparr>get_deployment = (\<lambda>_ _. Inr None), get_stateful_set = (\<lambda>_ _. Inr None),
        get_daemon_set = (\<lambda>_ _. Inr None), get_replica_set = (\<lambda>_ _. Inr None), get_job = (\<lambda>_ _. Inr None),
        get_service = (\<lambda>_ _. Inr None), get_replication_controller = (\<lambda>_ _. Inr None)\<rparr>,
      ru_list = (\<lambda>_ _. Inl (KubeApi 403 ''forbidden'')), ru_render = example_render_lib,
      ru_json = \<lparr>jl_parse_val = (\<lambda>_. None), jl_parse_value = (\<lambda>_. None), jl_pointer = (\<lambda>_ _. None),
        jl_of_value = (\<lambda>_. None), jl_show = (\<lambda>_. [])\<rparr>,
      ru_sea = (\<lambda>_. 0)\<rparr>"

theorem setup_errors_after_validation_witness:
  "\<exists>cfg. core_run_config_of example_cli_ctx example_cli = Inr cfg
     \<and> (case prepare_run example_libs ''ctx'' cfg of
          Inr pr \<Rightarrow> 1 \<le> pr_permits pr
        | Inl e \<Rightarrow> (\<exists>p. e = RePodList p) \<or> (\<exists>k. e = ReKube k)
            \<or> e = ReOther ''pod list pagination exceeded 1000 pages''
            \<or> (\<exists>re. e = ReOther (''invalid highlight/include regex: '' @ re)))"
proof -
  obtain cfg where cfg: "core_run_config_of example_cli_ctx example_cli = Inr cfg"
    using validated_config [OF example_cli_valid] by blast
  from setup_errors_after_validation [OF example_cli_valid cfg, of example_libs "''ctx''"] cfg show ?thesis
    by (auto simp: example_libs_def example_cli_ctx_def split: sum.splits)
qed

text \<open>
  C14: the result of a run tells what its stream did.  It is a success only if the set-up
  succeeded, the pipeline task did not fail, no limit was reported and no row that went through
  the pipeline fires an exit trigger, and then it reports source errors exactly if the number
  of API errors that came out of the pipeline is not zero (modulo \<open>2 ^ 64\<close>).  Otherwise the
  error names the first of these, in this order; a reported limit hides a fired trigger.
\<close>

theorem run_result_tells:
  "case prepare_run libs name cfg of
     Inl e \<Rightarrow> run_with_client libs env name cfg = Inl e
   | Inr pr \<Rightarrow>
       (\<exists>seen rest outs. concat (map fw_arrived (ren_wakes env pr)) = seen @ rest
        \<and> outs = snd (run_stage (apply_pipeline (ru_json libs) (ru_sea libs) (pr_pipeline pr)) exit_watch_new seen)
        \<and> (case run_with_client libs env name cfg of
             Inr out \<Rightarrow> pipe_join_error (ren_wait env) (ren_join env) = None \<and> limit_hit (ren_wait env) = False
               \<and> list_all (\<lambda>r. row_fires (ru_json libs) (pr_pipeline pr) r = False) seen
               \<and> (ro_had_source_errors out \<longleftrightarrow> (of_nat (api_errors outs) :: u64) \<noteq> 0)
           | Inl e \<Rightarrow>
               (case pipe_join_error (ren_wait env) (ren_join env) of
                  Some je \<Rightarrow> e = ReOther (''pipeline forward task failed: '' @ join_error_display je)
                | None \<Rightarrow>
                    if limit_hit (ren_wait env)
                    then e = ReOther ''max concurrent log streams reached (--max-log-requests)''
                    else e = ReExitOnTriggered \<and> list_ex (row_fires (ru_json libs) (pr_pipeline pr)) seen)))"
proof (cases "prepare_run libs name cfg")
  case (Inr pr)
  let ?p = "apply_pipeline (ru_json libs) (ru_sea libs) (pr_pipeline pr)" and ?wakes = "ren_wakes env pr"
  let ?fires = "row_fires (ru_json libs) (pr_pipeline pr)"
  obtain fs returned where l: "forward_of libs cfg pr ?wakes = (fs, returned)" by fastforce
  from forward_loop_rel [OF l [unfolded forward_of_def]] obtain seen rest outs where
    s: "concat (map fw_arrived ?wakes) = seen @ rest" "run_stage ?p exit_watch_new seen = (fs_watch fs, outs)"
    and rel: "forward_rel (fwd_lossy (cfg_fwd cfg)) outs (fwd_init exit_watch_new (counters_new (cfg_fwd cfg))) fs returned"
    by (auto simp: fwd_init_def)
  have "rs_source_errors (ct_stats (fs_counters fs)) = of_nat (api_errors outs)"
    using rel by (auto simp: forward_rel_def fwd_init_def counters_new_def from_fwd_def with_mux_policy_def)
  then have errs: "had_source_errors (ct_stats (fs_counters fs)) \<longleftrightarrow> (of_nat (api_errors outs) :: u64) \<noteq> 0"
    by (simp add: had_source_errors_def word_neq_0_conv)
  have "fs_watch fs = (if list_ex (\<lambda>r. case r of Inl _ \<Rightarrow> False | Inr ev \<Rightarrow> event_fires (ru_json libs) (pr_pipeline pr) ev) seen
      then fire exit_watch_new else exit_watch_new)"
    using s(2) by (simp add: run_pipeline_closed)
  then have trig: "ew_triggered (fs_watch fs) \<longleftrightarrow> list_ex ?fires seen"
    by (simp add: exit_watch_new_def row_fires_def [abs_def])
  have "list_all (\<lambda>r. ?fires r = False) seen \<longleftrightarrow> \<not> list_ex ?fires seen"
    by (auto simp: list_all_iff list_ex_iff)
  then have "case run_with_client libs env name cfg of
             Inr out \<Rightarrow> pipe_join_error (ren_wait env) (ren_join env) = None \<and> limit_hit (ren_wait env) = False
               \<and> list_all (\<lambda>r. ?fires r = False) seen
               \<and> (ro_had_source_errors out \<longleftrightarrow> (of_nat (api_errors outs) :: u64) \<noteq> 0)
           | Inl e \<Rightarrow>
               (case pipe_join_error (ren_wait env) (ren_join env) of
                  Some je \<Rightarrow> e = ReOther (''pipeline forward task failed: '' @ join_error_display je)
                | None \<Rightarrow>
                    if limit_hit (ren_wait env)
                    then e = ReOther ''max concurrent log streams reached (--max-log-requests)''
                    else e = ReExitOnTriggered \<and> list_ex ?fires seen)"
    by (simp add: run_with_client_def Inr Let_def l run_result_def trig errs split: option.split)
  with s show ?thesis unfolding Inr sum.case by (metis snd_conv)
qed (simp add: run_with_client_def)

end
