(* ===== verification/Progress.thy ===== *)
theory Progress
  imports Oneshot
begin

text \<open>
  Liveness of one-shot runs: no interleaving of the attach tasks and the multiplexer
  (\<open>runtime/attach.rs\<close>, \<open>runtime/mux.rs\<close>) can get stuck.  From every state that is reached without
  a cancellation there are steps, again without a cancellation, after which the multiplexer has
  returned; each of them does some of the work that is left.
\<close>

section \<open>The work that is left\<close>

definition task_work :: "attach_task option \<Rightarrow> nat" where
  "task_work t = (case t of Some TkStarting \<Rightarrow> 2 | Some (TkStreaming s) \<Rightarrow> 1 | _ \<Rightarrow> 0)"

definition cmd_work :: "mux_cmd \<Rightarrow> nat" where
  "cmd_work cmd = (case cmd of MuxAdd k s \<Rightarrow> 2 + length s | MuxRemove k \<Rightarrow> 1)"

definition streams_work :: "(source_key \<times> item list) list \<Rightarrow> nat" where
  "streams_work streams = sum_list (map (\<lambda>(k, s). 1 + length s) streams)"

definition os_work :: "source_key list \<Rightarrow> oneshot \<Rightarrow> nat" where
  "os_work keys w =
     (\<Sum>k\<in>set keys. task_work (os_tasks w k)) + sum_list (map cmd_work (os_cmds w))
       + streams_work (mx_streams (os_mux w))"

lemma work_simps [simp]:
  "task_work (Some TkStarting) = 2" "task_work (Some (TkStreaming s)) = 1" "task_work (Some TkFailed) = 0"
  "task_work (Some (TkFinished s)) = 0" "task_work None = 0"
  "cmd_work (MuxAdd k s) = 2 + length s" "cmd_work (MuxRemove k) = 1"
  "streams_work [] = 0" "streams_work ((k, s) # xs) = 1 + length s + streams_work xs"
  by (simp_all add: task_work_def cmd_work_def streams_work_def)

lemma streams_work_update:
  "k \<notin> fst ` set xs \<Longrightarrow> streams_work (AList.update k s xs) = 1 + length s + streams_work xs"
  by (induction xs) auto

lemma streams_work_drop_ended: "streams_work (drop_ended ended xs) \<le> streams_work xs"
  by (induction xs) (auto simp: drop_ended_def)

lemma drop_ended_none [simp]: "drop_ended {} xs = xs"
  by (simp add: drop_ended_def)

lemma task_done_less:
  assumes "k \<in> set keys" and "task_work t < task_work (os_tasks w k)"
  shows "(\<Sum>k'\<in>set keys. task_work (((os_tasks w)(k := t)) k')) < (\<Sum>k'\<in>set keys. task_work (os_tasks w k'))"
  using assms by (intro sum_strict_mono_ex1) (auto intro!: bexI [of _ k])

lemma tasks_of_keys:
  assumes "os_reachable policy keys c w"
  shows "os_tasks w k \<noteq> None \<longleftrightarrow> k \<in> set keys"
  using assms
proof induction
  case (OrStep w w')
  from OrStep.hyps(2) show ?case
    by (elim os_stepE) (use OrStep.IH in \<open>auto simp: mux_turn_def\<close>)
qed (simp add: oneshot_init_def)

section \<open>Progress\<close>

definition undisturbed :: "oneshot \<Rightarrow> bool" where
  "undisturbed w \<longleftrightarrow> \<not> os_cancelled w \<and> \<not> os_pipe_gone w"

text \<open>A turn of the multiplexer that is neither cancelled nor refused by the pipeline.\<close>

lemma mux_step:
  assumes "\<not> os_mux_done w" and "channel_gives w r"
    and "mux_iter policy (example_wake r ended p) (os_mux w) = (acts, m, go)"
  shows "os_step policy w (mux_turn (example_wake r ended p) acts m go w)"
  by (rule OsMux) (use assms in \<open>simp_all add: example_wake_def\<close>)

lemma mux_turn_frame [simp]:
  "undisturbed (mux_turn wk acts m go w) = undisturbed w" "os_mux_done (mux_turn wk acts m go w) = (\<not> go)"
  "os_mux (mux_turn wk acts m go w) = m" "os_tasks (mux_turn wk acts m go w) = os_tasks w"
  by (simp_all add: mux_turn_def undisturbed_def)

lemma progress_command:
  assumes "os_ok policy w" and "\<not> os_mux_done w" and "os_cmds w = cmd # cmds"
  shows "\<exists>w'. os_step policy w w' \<and> undisturbed w' = undisturbed w \<and> os_work keys w' < os_work keys w"
proof -
  obtain k s where cmd: "cmd = MuxAdd k s"
    using assms(1,3) by (cases cmd) (auto simp: os_ok_def)
  have "stream_ok w k" using assms(1) by (simp add: os_ok_def)
  then have "delivery_ok (os_tasks w k) (s # queued k cmds) (attached k (os_acts w))
      (k \<in> fst ` set (mx_streams (os_mux w))) (remaining k (os_mux w)) (taken_from k (os_acts w))"
    by (simp add: stream_ok_def assms(3) cmd)
  then have absent: "k \<notin> fst ` set (mx_streams (os_mux w))"
    by (cases "os_tasks w k"; cases "the (os_tasks w k)") auto
  let ?m = "publish_active ((os_mux w)\<lparr>mx_streams := AList.update k s (mx_streams (os_mux w))\<rparr>)"
  let ?w = "mux_turn (example_wake (RecvCmd cmd) {} None) [Attached k s] ?m True w"
  have "os_step policy w ?w"
    by (rule mux_step [OF assms(2)])
      (simp_all add: channel_gives_def assms(3) cmd mux_iter_def example_wake_def mux_command_def)
  moreover have "os_work keys ?w < os_work keys w"
    by (simp add: os_work_def assms(3) cmd publish_active_def streams_work_update [OF absent])
      (simp add: mux_turn_def example_wake_def assms(3))
  ultimately show ?thesis by (intro exI [of _ ?w]) simp
qed

lemma progress_stream:
  assumes "\<not> os_mux_done w" and "mx_streams (os_mux w) = (k, s) # streams"
  shows "\<exists>w'. os_step policy w w' \<and> undisturbed w' = undisturbed w \<and> os_work keys w' < os_work keys w"
proof (cases s)
  case Nil
  let ?wk = "example_wake RecvPending {k} None"
  let ?w = "mux_turn ?wk [] ((os_mux w)\<lparr>mx_streams := drop_ended {k} streams\<rparr>) True w"
  have "drop_ended {k} ((k, []) # streams) = drop_ended {k} streams" by (simp add: drop_ended_def)
  then have "os_step policy w ?w"
    by (intro mux_step [OF assms(1)])
      (simp_all add: channel_gives_def mux_iter_def example_wake_def assms(2) Nil stream_map_next_def)
  moreover have "os_work keys ?w < os_work keys w"
    using streams_work_drop_ended [of "{k}" streams]
    by (simp add: os_work_def assms(2) Nil) (simp add: mux_turn_def example_wake_def)
  ultimately show ?thesis by (intro exI [of _ ?w]) simp
next
  case (Cons row rest)
  let ?wk = "example_wake RecvPending {} (Some k)"
  let ?w = "mux_turn ?wk [Took k row, SentRow row] ((os_mux w)\<lparr>mx_streams := (k, rest) # streams\<rparr>) True w"
  have "os_step policy w ?w"
    by (rule mux_step [OF assms(1)])
      (cases policy; simp add: channel_gives_def mux_iter_def example_wake_def assms(2) Cons stream_map_next_def Let_def)+
  moreover have "os_work keys ?w < os_work keys w"
    by (simp add: os_work_def assms(2) Cons) (simp add: mux_turn_def example_wake_def)
  ultimately show ?thesis by (intro exI [of _ ?w]) simp
qed

lemma progress_task:
  assumes "\<not> os_mux_done w" and "os_cmds w = []" and "mx_streams (os_mux w) = []"
    and "k \<in> set keys" and "os_tasks w k = Some t" and "\<not> task_returned t"
  shows "\<exists>w'. os_step policy w w' \<and> undisturbed w' = undisturbed w \<and> os_work keys w' < os_work keys w"
proof (cases t)
  case TkStarting
  let ?w = "w\<lparr>os_tasks := (os_tasks w)(k := Some TkFailed)\<rparr>"
  have "os_step policy w ?w" by (rule OsFailed) (simp add: assms(5) TkStarting)
  moreover have "os_work keys ?w < os_work keys w"
    using task_done_less [OF assms(4), of "Some TkFailed" w] assms(5) TkStarting by (simp add: os_work_def)
  ultimately show ?thesis by (intro exI [of _ ?w]) (simp add: undisturbed_def)
next
  case (TkStreaming s)
  let ?w = "w\<lparr>os_tasks := (os_tasks w)(k := Some (TkFinished s))\<rparr>"
  have "os_step policy w ?w" by (rule OsEnded) (simp_all add: assms(2,3,5) TkStreaming stream_gone_def)
  moreover have "os_work keys ?w < os_work keys w"
    using task_done_less [OF assms(4), of "Some (TkFinished s)" w] assms(5) TkStreaming by (simp add: os_work_def)
  ultimately show ?thesis by (intro exI [of _ ?w]) (simp add: undisturbed_def)
qed (use assms(6) in simp_all)

lemma progress_closed:
  assumes "\<not> os_mux_done w" and "os_cmds w = []" and "\<And>k t. os_tasks w k = Some t \<Longrightarrow> task_returned t"
  shows "\<exists>w'. os_step policy w w' \<and> undisturbed w' = undisturbed w \<and> os_mux_done w'"
proof -
  have "os_step policy w (mux_turn (example_wake RecvClosed {} None) [] (os_mux w) False w)"
    by (rule mux_step [OF assms(1)]) (use assms(2,3) in \<open>simp_all add: channel_gives_def mux_iter_def example_wake_def\<close>)
  then show ?thesis by (intro exI [of _ "mux_turn (example_wake RecvClosed {} None) [] (os_mux w) False w"]) simp
qed

lemma progress:
  assumes "os_reachable policy keys c w" and "undisturbed w" and "\<not> os_mux_done w"
  shows "\<exists>w'. os_step policy w w' \<and> undisturbed w' \<and> (os_mux_done w' \<or> os_work keys w' < os_work keys w)"
proof (cases "os_cmds w")
  case (Cons cmd cmds)
  have "os_ok policy w" using os_ok_reachable [OF assms(1)] assms(2) by (auto simp: undisturbed_def)
  from progress_command [OF this assms(3) Cons, of keys] assms(2) show ?thesis by blast
next
  case Nil
  show ?thesis
  proof (cases "mx_streams (os_mux w)")
    case (Cons x streams)
    then show ?thesis using progress_stream [OF assms(3), of "fst x" "snd x" streams policy keys] assms(2) by auto
  next
    case empty: Nil
    show ?thesis
    proof (cases "\<exists>k t. os_tasks w k = Some t \<and> \<not> task_returned t")
      case True
      then obtain k t where t: "os_tasks w k = Some t" "\<not> task_returned t" by blast
      have "k \<in> set keys" using tasks_of_keys [OF assms(1), of k] t(1) by simp
      from progress_task [OF assms(3) Nil empty this t] assms(2) show ?thesis by blast
    next
      case False
      then show ?thesis using progress_closed [OF assms(3) Nil, of policy] assms(2) by blast
    qed
  qed
qed

text \<open>
  C11: a one-shot run can always finish: from every state reached without a cancellation and with
  the pipeline still there, however its attach tasks and the multiplexer have interleaved so
  far, steps without either lead to a state in which the multiplexer has returned, every attach
  task has returned and no command is left.
\<close>

theorem one_shot_can_finish:
  assumes "os_reachable policy keys c w" and "\<not> os_cancelled w" and "\<not> os_pipe_gone w"
  shows "\<exists>w'. (os_step policy)\<^sup>*\<^sup>* w w' \<and> os_mux_done w' \<and> \<not> os_cancelled w' \<and> \<not> os_pipe_gone w'
    \<and> os_cmds w' = [] \<and> (\<forall>k. case os_tasks w' k of None \<Rightarrow> k \<notin> set keys | Some t \<Rightarrow> task_returned t)"
proof -
  have finished: "os_cmds w = [] \<and> (\<forall>k. case os_tasks w k of None \<Rightarrow> k \<notin> set keys | Some t \<Rightarrow> task_returned t)"
    if "os_reachable policy keys c w" "undisturbed w" "os_mux_done w" for w
  proof -
    have "os_ok policy w" using os_ok_reachable [OF that(1)] that(2) by (auto simp: undisturbed_def)
    then show ?thesis using that(3) tasks_of_keys [OF that(1)] unfolding os_ok_def
      by (metis (no_types, lifting) option.case_eq_if option.collapse)
  qed
  have "\<exists>w'. (os_step policy)\<^sup>*\<^sup>* w w' \<and> os_reachable policy keys c w' \<and> os_mux_done w' \<and> undisturbed w'"
    if "os_reachable policy keys c w" "undisturbed w" for w
    using that
  proof (induction "os_work keys w" arbitrary: w rule: less_induct)
    case less
    show ?case
    proof (cases "os_mux_done w")
      case False
      from progress [OF less.prems False] obtain w' where step: "os_step policy w w'" "undisturbed w'"
        and less_work: "os_mux_done w' \<or> os_work keys w' < os_work keys w" by blast
      have reach: "os_reachable policy keys c w'" by (rule OrStep [OF less.prems(1) step(1)])
      show ?thesis
      proof (cases "os_mux_done w'")
        case True
        then show ?thesis using step reach by blast
      next
        case False
        with less.hyps [of w'] less_work reach step(2) obtain w'' where
          "(os_step policy)\<^sup>*\<^sup>* w' w''" "os_reachable policy keys c w''" "os_mux_done w''" "undisturbed w''" by blast
        then show ?thesis using converse_rtranclp_into_rtranclp [of "os_step policy", OF step(1)] by blast
      qed
    qed (use less.prems in blast)
  qed
  from this [OF assms(1)] assms(2,3) finished show ?thesis unfolding undisturbed_def by blast
qed

theorem one_shot_can_finish_witness:
  "\<exists>w'. (os_step BpLossy)\<^sup>*\<^sup>* (oneshot_init [example_key] example_counters) w' \<and> os_mux_done w'"
  using one_shot_can_finish [OF OrInit [of BpLossy "[example_key]" example_counters]]
  by (auto simp: oneshot_init_def)

end
