(* ===== verification/Follow.thy ===== *)
theory Follow
  imports Oneshot
begin

text \<open>
  A following run: the watch task, the attach tasks and the multiplexer, interleaved.  The watch
  task drops and adds streams (\<open>runtime/registry.rs\<close>), every attach task opens its stream and
  hands it over (\<open>runtime/attach.rs\<close>), and the multiplexer takes the commands in order
  (\<open>runtime/mux.rs\<close>).  A task, its stream and its cancellation token go by the number of the
  token; what the streams hold does not matter here, only who owns them.
\<close>

section \<open>Tasks, commands and streams\<close>

text \<open>An attach task opens its stream, waits for the end of the stream it has handed over, or has
  returned.\<close>

datatype follow_task = FtOpening | FtWaiting | FtReturned

datatype follow_cmd = FcAdd source_key nat | FcRemove source_key

text \<open>
  Besides the state of the tasks two records of the past: \<open>fo_gone\<close>, the tasks that gave up
  because their stream could not be opened or has ended at its source, and \<open>fo_late\<close>, those
  that handed their stream over although their token was cancelled already.
\<close>

record follow =
  fo_world :: world
  fo_tasks :: "nat \<Rightarrow> follow_task option"
  fo_cmds :: "follow_cmd list"
  fo_map :: "source_key \<Rightarrow> nat option"
  fo_gone :: "nat set"
  fo_late :: "nat set"

definition fo_init :: follow where
  "fo_init = \<lparr>fo_world = world_new, fo_tasks = Map.empty, fo_cmds = [], fo_map = Map.empty,
     fo_gone = {}, fo_late = {}\<rparr>"

text \<open>A stream that is dropped tells its task why: cancelled, or at its end.  The task then returns
  or, if it reconnects after an end, opens it again.\<close>

definition stream_dropped :: "bool \<Rightarrow> nat \<Rightarrow> follow \<Rightarrow> follow" where
  "stream_dropped reconnect t w =
     w\<lparr>fo_tasks := (fo_tasks w)(t \<mapsto>
        (if t \<notin> w_cancelled (fo_world w) \<and> reconnect then FtOpening else FtReturned))\<rparr>"

definition fo_drop :: "watch_ctx \<Rightarrow> source_key \<Rightarrow> follow \<Rightarrow> follow" where
  "fo_drop ctx k w =
     w\<lparr>fo_world := drop_key ctx k (fo_world w), fo_cmds := fo_cmds w @ [FcRemove k]\<rparr>"

definition fo_add :: "source_key \<Rightarrow> follow \<Rightarrow> follow" where
  "fo_add k w =
     (if k \<in> active (fo_world w) then w
      else w\<lparr>fo_world := add_key k (fo_world w),
             fo_tasks := (fo_tasks w)(w_next_token (fo_world w) \<mapsto> FtOpening)\<rparr>)"

definition fo_opened :: "source_key \<Rightarrow> nat \<Rightarrow> follow \<Rightarrow> follow" where
  "fo_opened k t w =
     w\<lparr>fo_tasks := (fo_tasks w)(t \<mapsto> FtWaiting), fo_cmds := fo_cmds w @ [FcAdd k t],
       fo_late := (if t \<in> w_cancelled (fo_world w) then insert t (fo_late w) else fo_late w)\<rparr>"

text \<open>The multiplexer takes a command; the stream it replaces or removes is dropped.\<close>

definition fo_command :: "bool \<Rightarrow> follow_cmd \<Rightarrow> follow_cmd list \<Rightarrow> follow \<Rightarrow> follow" where
  "fo_command reconnect cmd cmds w =
     (let k = (case cmd of FcAdd k _ \<Rightarrow> k | FcRemove k \<Rightarrow> k);
          new = (case cmd of FcAdd _ t \<Rightarrow> Some t | FcRemove _ \<Rightarrow> None);
          w' = w\<lparr>fo_cmds := cmds, fo_map := (fo_map w)(k := new)\<rparr>
      in case fo_map w k of None \<Rightarrow> w' | Some t0 \<Rightarrow> stream_dropped reconnect t0 w')"

definition fo_stream_end :: "bool \<Rightarrow> source_key \<Rightarrow> nat \<Rightarrow> follow \<Rightarrow> follow" where
  "fo_stream_end reconnect k t w =
     stream_dropped reconnect t
       (w\<lparr>fo_map := (fo_map w)(k := None), fo_gone := (if reconnect then fo_gone w else insert t (fo_gone w))\<rparr>)"

text \<open>
  The steps.  A send that has to wait for room in the bounded command channel is a later step.
  The caches of the world change without a bearing on the streams.
\<close>

inductive fo_step :: "watch_ctx \<Rightarrow> bool \<Rightarrow> follow \<Rightarrow> follow \<Rightarrow> bool" for ctx reconnect where
  FoDrop: "k \<in> active (fo_world w) \<Longrightarrow> w_mux_open (fo_world w) \<Longrightarrow> fo_step ctx reconnect w (fo_drop ctx k w)"
| FoAdd: "fo_step ctx reconnect w (fo_add k w)"
| FoCaches: "sharded_invar (wc_meta_hash ctx) m \<Longrightarrow> sharded_invar (wc_cursor_hash ctx) c \<Longrightarrow>
    fo_step ctx reconnect w (w\<lparr>fo_world := (fo_world w)\<lparr>w_meta := m, w_cursors := c, w_pending := ps\<rparr>\<rparr>)"
| FoCancelled: "fo_tasks w t = Some FtOpening \<Longrightarrow> t \<in> w_cancelled (fo_world w) \<Longrightarrow>
    fo_step ctx reconnect w (w\<lparr>fo_tasks := (fo_tasks w)(t \<mapsto> FtReturned)\<rparr>)"
| FoFailed: "fo_tasks w t = Some FtOpening \<Longrightarrow>
    fo_step ctx reconnect w (w\<lparr>fo_tasks := (fo_tasks w)(t \<mapsto> FtReturned), fo_gone := insert t (fo_gone w)\<rparr>)"
| FoOpened: "fo_tasks w t = Some FtOpening \<Longrightarrow> (k, t) \<in> set (w_spawned (fo_world w)) \<Longrightarrow>
    fo_step ctx reconnect w (fo_opened k t w)"
| FoCommand: "fo_cmds w = cmd # cmds \<Longrightarrow> fo_step ctx reconnect w (fo_command reconnect cmd cmds w)"
| FoStreamEnd: "fo_map w k = Some t \<Longrightarrow> fo_step ctx reconnect w (fo_stream_end reconnect k t w)"

inductive_cases fo_stepE: "fo_step ctx reconnect w w'"

inductive fo_reachable :: "watch_ctx \<Rightarrow> bool \<Rightarrow> follow \<Rightarrow> bool" for ctx reconnect where
  FoInit: "fo_reachable ctx reconnect fo_init"
| FoStep: "fo_reachable ctx reconnect w \<Longrightarrow> fo_step ctx reconnect w w' \<Longrightarrow> fo_reachable ctx reconnect w'"

section \<open>Who owns a stream\<close>

text \<open>Is the stream of \<open>t\<close> queued, with a command to remove its key behind it?\<close>

fun followed :: "source_key \<Rightarrow> nat \<Rightarrow> follow_cmd list \<Rightarrow> bool" where
  "followed k t [] \<longleftrightarrow> False"
| "followed k t (c # cs) \<longleftrightarrow> c = FcAdd k t \<and> FcRemove k \<in> set cs \<or> followed k t cs"

lemma followed_snoc [simp]:
  "followed k t (cs @ [c]) \<longleftrightarrow> followed k t cs \<or> c = FcRemove k \<and> FcAdd k t \<in> set cs"
  by (induction cs) auto

lemma followedD: "followed k t cs \<Longrightarrow> FcAdd k t \<in> set cs \<and> FcRemove k \<in> set cs"
  by (induction cs) auto

definition added :: "follow_cmd list \<Rightarrow> nat list" where
  "added = List.map_filter (\<lambda>c. case c of FcAdd _ t \<Rightarrow> Some t | FcRemove _ \<Rightarrow> None)"

lemma added_simps [simp]:
  "added [] = []" "added (FcAdd k t # cs) = t # added cs" "added (FcRemove k # cs) = added cs"
  "added (cs @ ds) = added cs @ added ds"
  by (simp_all add: added_def map_filter_def)

lemma in_added [simp]: "t \<in> set (added cs) \<longleftrightarrow> (\<exists>k. FcAdd k t \<in> set cs)"
  by (induction cs) (auto simp: added_def map_filter_def split: follow_cmd.splits)

text \<open>
  The streams that are queued or held are those of the waiting tasks, each once and under the
  key of its task.
\<close>

definition in_hand :: "follow \<Rightarrow> source_key \<Rightarrow> nat \<Rightarrow> bool" where
  "in_hand w k t \<longleftrightarrow> FcAdd k t \<in> set (fo_cmds w) \<or> fo_map w k = Some t"

definition owners_ok :: "follow \<Rightarrow> bool" where
  "owners_ok w \<longleftrightarrow>
     distinct (added (fo_cmds w))
   \<and> (\<forall>k t. fo_map w k = Some t \<longrightarrow> t \<notin> set (added (fo_cmds w)))
   \<and> (\<forall>k t. in_hand w k t \<longleftrightarrow> (k, t) \<in> set (w_spawned (fo_world w)) \<and> fo_tasks w t = Some FtWaiting)
   \<and> (\<forall>t. t < w_next_token (fo_world w) \<longleftrightarrow> fo_tasks w t \<noteq> None)"

lemma owners_okD:
  assumes "owners_ok w"
  shows "distinct (added (fo_cmds w))" and "fo_map w k = Some t \<Longrightarrow> FcAdd k' t \<notin> set (fo_cmds w)"
    and "in_hand w k t \<longleftrightarrow> (k, t) \<in> set (w_spawned (fo_world w)) \<and> fo_tasks w t = Some FtWaiting"
    and "t < w_next_token (fo_world w) \<longleftrightarrow> fo_tasks w t \<noteq> None"
  using assms unfolding owners_ok_def in_added by blast+

lemma owners_okI:
  assumes "distinct (added (fo_cmds w))"
    and "\<And>k k' t. fo_map w k = Some t \<Longrightarrow> FcAdd k' t \<notin> set (fo_cmds w)"
    and "\<And>k t. in_hand w k t \<longleftrightarrow> (k, t) \<in> set (w_spawned (fo_world w)) \<and> fo_tasks w t = Some FtWaiting"
    and "\<And>t. t < w_next_token (fo_world w) \<longleftrightarrow> fo_tasks w t \<noteq> None"
  shows "owners_ok w"
  using assms unfolding owners_ok_def in_added by blast

text \<open>The commands respect the registry: no queued command removes the stream of a live task.\<close>

definition order_ok :: "follow \<Rightarrow> bool" where
  "order_ok w \<longleftrightarrow>
     (\<forall>k t. tokens (fo_world w) k = Some t \<longrightarrow>
        \<not> followed k t (fo_cmds w) \<and> (fo_map w k = Some t \<longrightarrow> FcRemove k \<notin> set (fo_cmds w)))"

text \<open>Without a late stream, a command follows that removes the stream of a cancelled task, and
  the task of a live key works unless it gave up itself.\<close>

definition served_ok :: "follow \<Rightarrow> bool" where
  "served_ok w \<longleftrightarrow>
     (\<forall>k t. t \<in> w_cancelled (fo_world w) \<longrightarrow>
        (FcAdd k t \<in> set (fo_cmds w) \<longrightarrow> followed k t (fo_cmds w))
      \<and> (fo_map w k = Some t \<longrightarrow> FcRemove k \<in> set (fo_cmds w)))
   \<and> (\<forall>k t. tokens (fo_world w) k = Some t \<and> fo_tasks w t = Some FtReturned \<longrightarrow> t \<in> fo_gone w)"

lemma served_okI:
  assumes "\<And>k t. t \<in> w_cancelled (fo_world w) \<Longrightarrow> FcAdd k t \<in> set (fo_cmds w) \<Longrightarrow> followed k t (fo_cmds w)"
    and "\<And>k t. t \<in> w_cancelled (fo_world w) \<Longrightarrow> fo_map w k = Some t \<Longrightarrow> FcRemove k \<in> set (fo_cmds w)"
    and "\<And>k t. tokens (fo_world w) k = Some t \<Longrightarrow> fo_tasks w t = Some FtReturned \<Longrightarrow> t \<in> fo_gone w"
  shows "served_ok w"
  using assms unfolding served_ok_def by blast

definition fo_ok :: "watch_ctx \<Rightarrow> follow \<Rightarrow> bool" where
  "fo_ok ctx w \<longleftrightarrow> world_ok ctx (fo_world w) \<and> owners_ok w \<and> order_ok w \<and> (fo_late w = {} \<longrightarrow> served_ok w)"

lemma fo_ok_init: "fo_ok ctx fo_init"
  by (simp add: fo_ok_def fo_init_def world_ok_new owners_ok_def order_ok_def served_ok_def)
     (simp add: world_new_def registry_new_def in_hand_def)

lemma drop_key_frame [simp]:
  "w_spawned (drop_key ctx k w) = w_spawned w" "w_next_token (drop_key ctx k w) = w_next_token w"
  "tokens (drop_key ctx k w) = (tokens w)(k := None)"
  "w_cancelled (drop_key ctx k w) =
     (case tokens w k of Some t \<Rightarrow> insert t (w_cancelled w) | None \<Rightarrow> w_cancelled w)"
  by (simp_all add: drop_key_def)

lemma fo_ok_drop:
  assumes "fo_ok ctx w"
  shows "fo_ok ctx (fo_drop ctx k w)"
proof -
  have ok: "world_ok ctx (fo_world w)" "owners_ok w" "order_ok w" "fo_late w = {} \<Longrightarrow> served_ok w"
    using assms by (simp_all add: fo_ok_def)
  have "owners_ok (fo_drop ctx k w)"
    using ok(2) by (simp add: owners_ok_def fo_drop_def in_hand_def)
  moreover have "order_ok (fo_drop ctx k w)"
    using ok(3) by (simp add: order_ok_def fo_drop_def)
  moreover have "served_ok (fo_drop ctx k w)" if late: "fo_late w = {}"
  proof -
    note s = ok(4) [OF late]
    have key: "k' = k" if "tokens (fo_world w) k = Some t"
        and "FcAdd k' t \<in> set (fo_cmds w) \<or> fo_map w k' = Some t" for k' t
      using that owners_okD(3) [OF ok(2), of k' t] world_okD(5) [OF ok(1), of k t]
        spawned_token_unique [OF ok(1), of k' t k] unfolding in_hand_def by blast
    show ?thesis
      using s key unfolding served_ok_def fo_drop_def
      by (auto split: option.splits if_splits)
  qed
  ultimately show ?thesis
    using world_ok_drop_key [OF ok(1)] by (simp add: fo_ok_def) (simp add: fo_drop_def)
qed

lemma fo_ok_add:
  assumes "fo_ok ctx w"
  shows "fo_ok ctx (fo_add k w)"
proof (cases "k \<in> active (fo_world w)")
  case False
  have ok: "world_ok ctx (fo_world w)" "owners_ok w" "order_ok w" "fo_late w = {} \<Longrightarrow> served_ok w"
    using assms by (simp_all add: fo_ok_def)
  let ?n = "w_next_token (fo_world w)"
  have fresh: "fo_tasks w ?n = None" using owners_okD(4) [OF ok(2), of ?n] by simp
  then have unused: "FcAdd k' ?n \<notin> set (fo_cmds w)" "fo_map w k' \<noteq> Some ?n" for k'
    using owners_okD(3) [OF ok(2), of k' ?n] by (auto simp: in_hand_def)
  have c: "?n \<notin> w_cancelled (fo_world w)" using world_okD(4) [OF ok(1)] by auto
  have world: "w_spawned (add_key k (fo_world w)) = w_spawned (fo_world w) @ [(k, ?n)]"
    "w_next_token (add_key k (fo_world w)) = Suc ?n"
    "tokens (add_key k (fo_world w)) = (tokens (fo_world w))(k \<mapsto> ?n)"
    "w_cancelled (add_key k (fo_world w)) = w_cancelled (fo_world w)"
    using False by (simp_all add: add_key_def)
  have "owners_ok (fo_add k w)"
  proof (rule owners_okI)
    show "in_hand (fo_add k w) k' t \<longleftrightarrow>
      (k', t) \<in> set (w_spawned (fo_world (fo_add k w))) \<and> fo_tasks (fo_add k w) t = Some FtWaiting" for k' t
      using owners_okD(3) [OF ok(2), of k' t] unused [of k'] False
      by (cases "t = ?n") (auto simp: fo_add_def world in_hand_def)
    show "t < w_next_token (fo_world (fo_add k w)) \<longleftrightarrow> fo_tasks (fo_add k w) t \<noteq> None" for t
      using owners_okD(4) [OF ok(2), of t] False by (auto simp: fo_add_def world less_Suc_eq)
  qed (use False in \<open>auto dest: owners_okD(2) [OF ok(2)] simp: owners_okD(1) [OF ok(2)] fo_add_def\<close>)
  moreover have "order_ok (fo_add k w)"
    using ok(3) unused followedD False unfolding order_ok_def fo_add_def by (simp add: world) blast
  moreover have "fo_late w = {} \<Longrightarrow> served_ok (fo_add k w)"
    using ok(4) False unused c unfolding served_ok_def fo_add_def by (auto simp: world)
  ultimately show ?thesis
    using world_ok_add_key [OF ok(1)] False by (simp add: fo_ok_def) (simp add: fo_add_def)
qed (use assms in \<open>simp add: fo_add_def\<close>)

lemma fo_ok_caches:
  assumes "fo_ok ctx w" and "sharded_invar (wc_meta_hash ctx) m" and "sharded_invar (wc_cursor_hash ctx) c"
  shows "fo_ok ctx (w\<lparr>fo_world := (fo_world w)\<lparr>w_meta := m, w_cursors := c, w_pending := ps\<rparr>\<rparr>)"
  (is "fo_ok ctx ?w")
proof -
  have "world_ok ctx ((fo_world w)\<lparr>w_meta := m, w_cursors := c, w_pending := ps\<rparr>)"
    using assms by (simp add: fo_ok_def world_ok_def)
  moreover have "owners_ok ?w = owners_ok w" by (simp add: owners_ok_def in_hand_def)
  moreover have "order_ok ?w = order_ok w" by (simp add: order_ok_def)
  moreover have "served_ok ?w = served_ok w" by (simp add: served_ok_def)
  ultimately show ?thesis using assms(1) by (simp add: fo_ok_def)
qed

lemma owner_spawned:
  assumes "owners_ok w" and "FcAdd k t \<in> set (fo_cmds w) \<or> fo_map w k = Some t"
  shows "(k, t) \<in> set (w_spawned (fo_world w))"
  using owners_okD(3) [OF assms(1), of k t] assms(2) by (simp add: in_hand_def)

text \<open>A task that has not handed a stream over owns none.\<close>

lemma opening_owns_nothing:
  assumes "owners_ok w" and "fo_tasks w t = Some FtOpening"
  shows "FcAdd k t \<notin> set (fo_cmds w)" and "fo_map w k \<noteq> Some t"
  using owners_okD(3) [OF assms(1), of k t] assms(2) by (simp_all add: in_hand_def)

lemma fo_ok_returned:
  assumes "fo_ok ctx w" and "fo_tasks w t = Some FtOpening"
    and "t \<in> w_cancelled (fo_world w) \<or> t \<in> gone" and "fo_gone w \<subseteq> gone"
  shows "fo_ok ctx (w\<lparr>fo_tasks := (fo_tasks w)(t \<mapsto> FtReturned), fo_gone := gone\<rparr>)"
proof -
  have ok: "world_ok ctx (fo_world w)" "owners_ok w" "order_ok w" "fo_late w = {} \<Longrightarrow> served_ok w"
    using assms(1) by (simp_all add: fo_ok_def)
  note none = opening_owns_nothing [OF ok(2) assms(2)]
  have live: "t' \<notin> w_cancelled (fo_world w)" if "tokens (fo_world w) k = Some t'" for k t'
    using world_okD(5) [OF ok(1)] that by blast
  let ?w = "w\<lparr>fo_tasks := (fo_tasks w)(t \<mapsto> FtReturned), fo_gone := gone\<rparr>"
  have "owners_ok ?w"
  proof (rule owners_okI)
    show "in_hand ?w k t' \<longleftrightarrow> (k, t') \<in> set (w_spawned (fo_world ?w)) \<and> fo_tasks ?w t' = Some FtWaiting" for k t'
      using owners_okD(3) [OF ok(2), of k t'] none [of k] by (cases "t' = t") (auto simp: in_hand_def)
    show "t' < w_next_token (fo_world ?w) \<longleftrightarrow> fo_tasks ?w t' \<noteq> None" for t'
      using owners_okD(4) [OF ok(2), of t'] assms(2) by simp
  qed (auto dest: owners_okD(2) [OF ok(2)] simp: owners_okD(1) [OF ok(2)])
  moreover have "order_ok ?w" using ok(3) by (simp add: order_ok_def)
  moreover have "served_ok ?w" if "fo_late w = {}"
    using ok(4) [OF that] assms(3) live subsetD [OF assms(4)] unfolding served_ok_def by auto
  ultimately show ?thesis using ok(1) by (simp add: fo_ok_def)
qed

lemma fo_ok_opened:
  assumes "fo_ok ctx w" and "fo_tasks w t = Some FtOpening" and "(k, t) \<in> set (w_spawned (fo_world w))"
  shows "fo_ok ctx (fo_opened k t w)"
proof -
  have ok: "world_ok ctx (fo_world w)" "owners_ok w" "order_ok w" "fo_late w = {} \<Longrightarrow> served_ok w"
    using assms(1) by (simp_all add: fo_ok_def)
  note none = opening_owns_nothing [OF ok(2) assms(2)]
  have "owners_ok (fo_opened k t w)"
  proof (rule owners_okI)
    show "in_hand (fo_opened k t w) k' t' \<longleftrightarrow> (k', t') \<in> set (w_spawned (fo_world (fo_opened k t w)))
        \<and> fo_tasks (fo_opened k t w) t' = Some FtWaiting" for k' t'
      using owners_okD(3) [OF ok(2), of k' t'] none [of k'] assms(3) spawned_token_unique [OF ok(1) assms(3), of k']
      by (cases "t' = t") (auto simp: fo_opened_def in_hand_def)
    show "t' < w_next_token (fo_world (fo_opened k t w)) \<longleftrightarrow> fo_tasks (fo_opened k t w) t' \<noteq> None" for t'
      using owners_okD(4) [OF ok(2), of t'] assms(2) by (simp add: fo_opened_def)
  qed (use none in \<open>auto dest: owners_okD(2) [OF ok(2)] simp: owners_okD(1) [OF ok(2)] fo_opened_def\<close>)
  moreover have "order_ok (fo_opened k t w)"
    using ok(3) by (simp add: order_ok_def fo_opened_def)
  moreover have "served_ok (fo_opened k t w)" if "fo_late (fo_opened k t w) = {}"
  proof -
    have live: "t \<notin> w_cancelled (fo_world w)" and late: "fo_late w = {}"
      using that by (auto simp: fo_opened_def split: if_splits)
    show ?thesis using ok(4) [OF late] live unfolding served_ok_def fo_opened_def by auto
  qed
  ultimately show ?thesis using ok(1) by (simp add: fo_ok_def) (simp add: fo_opened_def)
qed

lemma stream_dropped_frame [simp]:
  "fo_world (stream_dropped reconnect t w) = fo_world w" "fo_cmds (stream_dropped reconnect t w) = fo_cmds w"
  "fo_map (stream_dropped reconnect t w) = fo_map w" "fo_gone (stream_dropped reconnect t w) = fo_gone w"
  "fo_late (stream_dropped reconnect t w) = fo_late w"
  "fo_tasks (stream_dropped reconnect t w) = (fo_tasks w)(t \<mapsto>
        (if t \<notin> w_cancelled (fo_world w) \<and> reconnect then FtOpening else FtReturned))"
  by (simp_all add: stream_dropped_def)

text \<open>Taking the stream of \<open>t\<close> out of the map: its task is told, all others keep what they have.\<close>

lemma fo_ok_dropped:
  assumes "fo_ok ctx w" and "fo_map w k = Some t" and "fo_gone w \<subseteq> gone"
    and "fo_late w = {} \<Longrightarrow> t \<in> w_cancelled (fo_world w) \<or> t \<in> gone \<or> reconnect"
  shows "fo_ok ctx (stream_dropped reconnect t (w\<lparr>fo_map := (fo_map w)(k := None), fo_gone := gone\<rparr>))"
proof -
  have ok: "world_ok ctx (fo_world w)" "owners_ok w" "order_ok w" "fo_late w = {} \<Longrightarrow> served_ok w"
    using assms(1) by (simp_all add: fo_ok_def)
  let ?w = "stream_dropped reconnect t (w\<lparr>fo_map := (fo_map w)(k := None), fo_gone := gone\<rparr>)"
  have only: "k' = k" if "fo_map w k' = Some t" for k'
    by (rule spawned_token_unique [OF ok(1) owner_spawned [OF ok(2) disjI2 [OF that]]
          owner_spawned [OF ok(2) disjI2 [OF assms(2)]]])
  have unqueued: "FcAdd k' t \<notin> set (fo_cmds w)" for k' by (rule owners_okD(2) [OF ok(2) assms(2)])
  have live: "t' \<notin> w_cancelled (fo_world w)" if "tokens (fo_world w) k' = Some t'" for k' t'
    using world_okD(5) [OF ok(1)] that by blast
  have task: "fo_tasks w t = Some FtWaiting"
    using owners_okD(3) [OF ok(2), of k t] assms(2) by (simp add: in_hand_def)
  have "owners_ok ?w"
  proof (rule owners_okI)
    show "in_hand ?w k' t' \<longleftrightarrow>
      (k', t') \<in> set (w_spawned (fo_world ?w)) \<and> fo_tasks ?w t' = Some FtWaiting" for k' t'
    proof (cases "t' = t")
      case True
      then show ?thesis using only [of k'] unqueued [of k'] by (cases "k' = k") (auto simp: in_hand_def)
    next
      case False
      then show ?thesis
        using owners_okD(3) [OF ok(2), of k' t'] assms(2) by (cases "k' = k") (simp_all add: in_hand_def)
    qed
    show "t' < w_next_token (fo_world ?w) \<longleftrightarrow> fo_tasks ?w t' \<noteq> None" for t'
      using owners_okD(4) [OF ok(2), of t'] task by simp
  qed (auto dest: owners_okD(2) [OF ok(2)] simp: owners_okD(1) [OF ok(2)] split: if_splits)
  moreover have "order_ok ?w" using ok(3) by (simp add: order_ok_def)
  moreover have "served_ok ?w" if late: "fo_late w = {}"
  proof -
    note s = ok(4) [OF late, unfolded served_ok_def]
    show ?thesis
    proof (rule served_okI)
      fix k0 t0 assume "tokens (fo_world ?w) k0 = Some t0" and "fo_tasks ?w t0 = Some FtReturned"
      then show "t0 \<in> fo_gone ?w"
        using s live [of k0 t0] assms(4) [OF late] subsetD [OF assms(3), of t0]
        by (cases "t0 = t") (auto split: if_splits)
    qed (use s in \<open>auto split: if_splits\<close>)
  qed
  ultimately show ?thesis using ok(1) by (simp add: fo_ok_def)
qed

lemma fo_ok_take:
  assumes "fo_ok ctx w" and "fo_cmds w = FcAdd k t # cmds" and "fo_map w k = None"
  shows "fo_ok ctx (w\<lparr>fo_cmds := cmds, fo_map := (fo_map w)(k \<mapsto> t)\<rparr>)"
proof -
  have ok: "world_ok ctx (fo_world w)" "owners_ok w" "order_ok w" "fo_late w = {} \<Longrightarrow> served_ok w"
    using assms(1) by (simp_all add: fo_ok_def)
  let ?w = "w\<lparr>fo_cmds := cmds, fo_map := (fo_map w)(k \<mapsto> t)\<rparr>"
  have once: "FcAdd k' t \<notin> set cmds" for k' using owners_okD(1) [OF ok(2)] assms(2) by simp
  have "owners_ok ?w"
  proof (rule owners_okI)
    show "in_hand ?w k' t' \<longleftrightarrow>
      (k', t') \<in> set (w_spawned (fo_world ?w)) \<and> fo_tasks ?w t' = Some FtWaiting" for k' t'
      using owners_okD(3) [OF ok(2), of k' t'] assms(2,3) by (auto simp: in_hand_def)
  qed (use owners_okD(1,4) [OF ok(2)] owners_okD(2) [OF ok(2), unfolded assms(2)] once in \<open>auto split: if_splits simp: assms(2)\<close>)
  moreover have "order_ok ?w"
    using ok(3) assms(2) unfolding order_ok_def by auto
  moreover have "served_ok ?w" if late: "fo_late w = {}"
    using ok(4) [OF late] assms(2) once unfolding served_ok_def by (auto dest: followedD)
  ultimately show ?thesis using ok(1) by (simp add: fo_ok_def)
qed

lemma fo_ok_skip:
  assumes "fo_ok ctx w" and "fo_cmds w = FcRemove k # cmds" and "fo_map w k = None"
  shows "fo_ok ctx (w\<lparr>fo_cmds := cmds, fo_map := (fo_map w)(k := None)\<rparr>)"
proof -
  have ok: "world_ok ctx (fo_world w)" "owners_ok w" "order_ok w" "fo_late w = {} \<Longrightarrow> served_ok w"
    using assms(1) by (simp_all add: fo_ok_def)
  let ?w = "w\<lparr>fo_cmds := cmds, fo_map := (fo_map w)(k := None)\<rparr>"
  have none: "fo_map w k \<noteq> Some t'" for t' using assms(3) by simp
  have same: "(fo_map w)(k := None) = fo_map w" using assms(3) by auto
  have "owners_ok ?w"
    using ok(2) assms(2) by (simp add: owners_ok_def in_hand_def same)
  moreover have "order_ok ?w"
    using ok(3) assms(2) unfolding order_ok_def same by auto
  moreover have "served_ok ?w" if late: "fo_late w = {}"
    using ok(4) [OF late] assms(2) none unfolding served_ok_def same by auto metis
  ultimately show ?thesis using ok(1) by (simp add: fo_ok_def)
qed

lemma live_token:
  assumes "world_ok ctx w" and "(k, t) \<in> set (w_spawned w)"
  shows "t \<in> w_cancelled w \<or> tokens w k = Some t"
  using world_okD(5) [OF assms(1)] assms(2) by blast

text \<open>Without a late stream, a command takes the stream of a live task out of nobody's hands.\<close>

lemma command_drops_cancelled:
  assumes "fo_ok ctx w" and "fo_cmds w = cmd # cmds" and "fo_map w k = Some t0"
    and "cmd = FcRemove k \<or> (\<exists>t. cmd = FcAdd k t)" and "fo_late w = {}"
  shows "t0 \<in> w_cancelled (fo_world w)"
proof (rule ccontr)
  assume live: "t0 \<notin> w_cancelled (fo_world w)"
  have ok: "world_ok ctx (fo_world w)" "owners_ok w" "order_ok w" "served_ok w"
    using assms(1,5) by (simp_all add: fo_ok_def)
  have tok: "tokens (fo_world w) k = Some t0"
    using live_token [OF ok(1) owner_spawned [OF ok(2)]] assms(3) live by blast
  then have kept: "FcRemove k \<notin> set (fo_cmds w)" using ok(3) assms(3) unfolding order_ok_def by blast
  with assms(2,4) obtain t where add: "FcAdd k t \<in> set (fo_cmds w)" by auto
  then have "t \<noteq> t0" using owners_okD(2) [OF ok(2) assms(3)] by blast
  with tok have "t \<in> w_cancelled (fo_world w)"
    using live_token [OF ok(1) owner_spawned [OF ok(2)]] add by fastforce
  with add ok(4) have "followed k t (fo_cmds w)" unfolding served_ok_def by blast
  with kept show False by (blast dest: followedD)
qed

lemma fo_ok_command:
  assumes "fo_ok ctx w" and "fo_cmds w = cmd # cmds"
  shows "fo_ok ctx (fo_command reconnect cmd cmds w)"
proof -
  obtain k new where k: "k = (case cmd of FcAdd k _ \<Rightarrow> k | FcRemove k \<Rightarrow> k)"
    and new: "new = (case cmd of FcAdd _ t \<Rightarrow> Some t | FcRemove _ \<Rightarrow> None)" by blast
  let ?free = "\<lambda>w. w\<lparr>fo_cmds := cmds, fo_map := (fo_map w)(k := new)\<rparr>"
  have free: "fo_ok ctx (?free w')" if "fo_ok ctx w'" "fo_cmds w' = cmd # cmds" "fo_map w' k = None" for w'
    using that fo_ok_take fo_ok_skip by (cases cmd) (simp_all add: k new)
  show ?thesis
  proof (cases "fo_map w k")
    case None
    then have "fo_command reconnect cmd cmds w = ?free w"
      by (simp add: fo_command_def k [symmetric] new [symmetric])
    with free [OF assms None] show ?thesis by simp
  next
    case (Some t0)
    let ?w = "stream_dropped reconnect t0 (w\<lparr>fo_map := (fo_map w)(k := None), fo_gone := fo_gone w\<rparr>)"
    have "cmd = FcRemove k \<or> (\<exists>t. cmd = FcAdd k t)" by (cases cmd) (simp_all add: k)
    then have "fo_ok ctx ?w"
      using fo_ok_dropped [OF assms(1) Some order_refl] command_drops_cancelled [OF assms Some] by blast
    then have "fo_ok ctx (?free ?w)" using assms(2) by (intro free) simp_all
    moreover have "fo_command reconnect cmd cmds w = ?free ?w"
      using Some by (simp add: fo_command_def k [symmetric] new [symmetric] stream_dropped_def)
    ultimately show ?thesis by simp
  qed
qed

lemma fo_ok_reachable: "fo_reachable ctx reconnect w \<Longrightarrow> fo_ok ctx w"
proof (induction rule: fo_reachable.induct)
  case (FoStep w w')
  from FoStep.hyps(2) FoStep.IH show ?case
  proof (cases rule: fo_step.cases)
    case (FoFailed t)
    then show ?thesis using fo_ok_returned [OF FoStep.IH, of t "insert t (fo_gone w)"] by blast
  next
    case (FoCancelled t)
    then show ?thesis using fo_ok_returned [OF FoStep.IH, of t "fo_gone w"] by simp
  next
    case (FoStreamEnd k t)
    then show ?thesis
      unfolding fo_stream_end_def
      using fo_ok_dropped [OF FoStep.IH, of k t "if reconnect then fo_gone w else insert t (fo_gone w)" reconnect]
      by (cases reconnect) (simp_all add: subset_insertI)
  qed (simp_all add: fo_ok_drop fo_ok_add fo_ok_caches fo_ok_opened fo_ok_command)
qed (rule fo_ok_init)

text \<open>
  C20: in a following run every stream has one owner: in every reachable state the streams that
  are queued for the multiplexer or held by it are exactly those of the tasks that wait for the
  end of their stream, under the key the task was spawned for, and no stream is queued twice or
  both queued and held.
\<close>

theorem streams_have_owners:
  assumes "fo_reachable ctx reconnect w"
  shows "distinct (added (fo_cmds w))
    \<and> (FcAdd k t \<in> set (fo_cmds w) \<or> fo_map w k = Some t)
        = ((k, t) \<in> set (w_spawned (fo_world w)) \<and> fo_tasks w t = Some FtWaiting)
    \<and> \<not> (FcAdd k' t \<in> set (fo_cmds w) \<and> fo_map w k = Some t)"
proof -
  have own: "owners_ok w" using fo_ok_reachable [OF assms] by (simp add: fo_ok_def)
  note o = owners_okD(1,2,3) [OF own]
  show ?thesis using o(1) o(2) [of k t k'] o(3) [of k t] unfolding in_hand_def by blast
qed

text \<open>
  C6: as long as no attach task hands its stream over after its token was cancelled, every
  stream the registry wants is served: unless its task gave up (its stream could not be opened
  or ended at its source), the task is opening the stream, or the stream is queued for the
  multiplexer, or the multiplexer holds it; and once the multiplexer has taken all commands it
  holds no stream the registry does not want.
\<close>

theorem live_stream_served:
  assumes "fo_reachable ctx reconnect w" and "fo_late w = {}"
    and "tokens (fo_world w) k = Some t" and "t \<notin> fo_gone w"
  shows "(fo_tasks w t = Some FtOpening \<or> FcAdd k t \<in> set (fo_cmds w) \<or> fo_map w k = Some t)
    \<and> (fo_cmds w = [] \<longrightarrow> (\<forall>k' t'. fo_map w k' = Some t' \<longrightarrow> tokens (fo_world w) k' = Some t'))"
proof
  have ok: "world_ok ctx (fo_world w)" "owners_ok w" "served_ok w"
    using fo_ok_reachable [OF assms(1)] assms(2) by (simp_all add: fo_ok_def)
  have spawned: "(k, t) \<in> set (w_spawned (fo_world w))" using world_okD(5) [OF ok(1)] assms(3) by blast
  then have "t \<in> set (map snd (w_spawned (fo_world w)))" by force
  then have "t < w_next_token (fo_world w)" unfolding world_okD(3) [OF ok(1)] by simp
  then obtain task where task: "fo_tasks w t = Some task" using owners_okD(4) [OF ok(2), of t] by auto
  have "task \<noteq> FtReturned" using ok(3) assms(3,4) task unfolding served_ok_def by blast
  then show "fo_tasks w t = Some FtOpening \<or> FcAdd k t \<in> set (fo_cmds w) \<or> fo_map w k = Some t"
    using owners_okD(3) [OF ok(2), of k t] spawned task by (cases task) (simp_all add: in_hand_def)
  show "fo_cmds w = [] \<longrightarrow> (\<forall>k' t'. fo_map w k' = Some t' \<longrightarrow> tokens (fo_world w) k' = Some t')"
  proof (intro impI allI)
    fix k' t' assume empty: "fo_cmds w = []" and held: "fo_map w k' = Some t'"
    then have "t' \<notin> w_cancelled (fo_world w)" using ok(3) unfolding served_ok_def by fastforce
    then show "tokens (fo_world w) k' = Some t'"
      using live_token [OF ok(1) owner_spawned [OF ok(2) disjI2 [OF held]]] by simp
  qed
qed

section \<open>A late stream\<close>

abbreviation fo_steps :: "watch_ctx \<Rightarrow> bool \<Rightarrow> follow \<Rightarrow> follow \<Rightarrow> bool" where
  "fo_steps ctx reconnect \<equiv> (fo_step ctx reconnect)\<^sup>*\<^sup>*"

lemma fo_steps_reachable: "fo_steps ctx reconnect w w' \<Longrightarrow> fo_reachable ctx reconnect w \<Longrightarrow> fo_reachable ctx reconnect w'"
  by (induction rule: rtranclp_induct) (blast intro: FoStep)+

text \<open>What a step tells of one task: it gives up only from opening, and its stream is dropped only
  when it waits for it.\<close>

lemma held_waits: "owners_ok w \<Longrightarrow> fo_map w k = Some t \<Longrightarrow> fo_tasks w t = Some FtWaiting"
  using owners_okD(3) [of w k t] by (simp add: in_hand_def)

lemma fo_command_cases:
  "fo_gone (fo_command reconnect cmd cmds w) = fo_gone w"
  "fo_tasks (fo_command reconnect cmd cmds w) = fo_tasks w
   \<or> (\<exists>k t. fo_map w k = Some t \<and> fo_tasks (fo_command reconnect cmd cmds w) = (fo_tasks w)(t \<mapsto>
        (if t \<notin> w_cancelled (fo_world w) \<and> reconnect then FtOpening else FtReturned)))"
  by (auto simp: fo_command_def stream_dropped_def Let_def split: option.split)

lemma returned_step:
  assumes "fo_ok ctx w" and "fo_step ctx reconnect w w'" and "fo_tasks w t = Some FtReturned"
  shows "fo_tasks w' t = Some FtReturned \<and> (t \<in> fo_gone w' \<longrightarrow> t \<in> fo_gone w)"
proof -
  have own: "owners_ok w" using assms(1) by (simp add: fo_ok_def)
  have held: "fo_map w k \<noteq> Some t" for k using held_waits [OF own, of k t] assms(3) by auto
  have fresh: "fo_tasks w (w_next_token (fo_world w)) = None"
    using owners_okD(4) [OF own, of "w_next_token (fo_world w)"] by simp
  from assms(2) show ?thesis
  proof (cases rule: fo_step.cases)
    case (FoAdd k)
    then show ?thesis using assms(3) fresh by (auto simp: fo_add_def)
  next
    case (FoCommand cmd cmds)
    then show ?thesis using assms(3) held fo_command_cases [of reconnect cmd cmds w] by (auto split: if_splits)
  next
    case (FoStreamEnd k t')
    then show ?thesis using assms(3) held by (auto simp: fo_stream_end_def split: if_splits)
  qed (use assms(3) in \<open>auto simp: fo_drop_def fo_opened_def\<close>)
qed

lemma returned_steps:
  assumes "fo_steps ctx reconnect w w'" and "fo_reachable ctx reconnect w" and "fo_tasks w t = Some FtReturned"
  shows "fo_tasks w' t = Some FtReturned \<and> (t \<in> fo_gone w' \<longrightarrow> t \<in> fo_gone w)"
  using assms(1)
proof (induction rule: rtranclp_induct)
  case (step w1 w2)
  have "fo_ok ctx w1" by (rule fo_ok_reachable [OF fo_steps_reachable [OF step.hyps(1) assms(2)]])
  with returned_step [OF this step.hyps(2), of t] step.IH show ?case by blast
qed (simp add: assms(3))

text \<open>A task that gave up has returned, unless it reconnects after an end.\<close>

lemma gone_returned:
  "fo_reachable ctx False w \<Longrightarrow> t \<in> fo_gone w \<Longrightarrow> fo_tasks w t = Some FtReturned"
proof (induction rule: fo_reachable.induct)
  case (FoStep w w')
  note keep = returned_step [OF fo_ok_reachable [OF FoStep.hyps(1)] FoStep.hyps(2), of t]
  show ?case
  proof (cases "t \<in> fo_gone w")
    case True
    then show ?thesis using keep FoStep.IH by blast
  next
    case False
    from FoStep.hyps(2) show ?thesis
      using False FoStep.prems
      by (cases rule: fo_step.cases)
        (auto simp: fo_drop_def fo_add_def fo_opened_def fo_stream_end_def fo_command_cases split: if_splits)
  qed
qed (simp add: fo_init_def)

text \<open>Whatever else is queued or held under the key of a live task belongs to a cancelled one.\<close>

lemma others_cancelled:
  assumes "fo_ok ctx w" and "tokens (fo_world w) k = Some t"
    and "FcAdd k t' \<in> set (fo_cmds w) \<or> fo_map w k = Some t'" and "t' \<noteq> t"
  shows "t' \<in> w_cancelled (fo_world w)"
  using live_token [of ctx "fo_world w" k t'] owner_spawned [of w k t'] assms by (auto simp: fo_ok_def)

text \<open>The stream of a key whose first task opens its stream late.\<close>

definition late_add_start :: "watch_ctx \<Rightarrow> source_key \<Rightarrow> follow" where
  "late_add_start ctx k =
     (let w1 = fo_add k (fo_drop ctx k (fo_add k fo_init));
          w2 = fo_opened k 1 (fo_command False (FcRemove k) [] w1)
      in fo_opened k 0 (fo_command False (FcAdd k 1) [] w2))"

definition late_add_run :: "watch_ctx \<Rightarrow> source_key \<Rightarrow> follow" where
  "late_add_run ctx k = fo_stream_end False k 0 (fo_command False (FcAdd k 0) [] (late_add_start ctx k))"

lemma fo_opened_frame [simp]:
  "fo_world (fo_opened k t w) = fo_world w" "fo_map (fo_opened k t w) = fo_map w"
  "fo_cmds (fo_opened k t w) = fo_cmds w @ [FcAdd k t]" "fo_gone (fo_opened k t w) = fo_gone w"
  "fo_tasks (fo_opened k t w) = (fo_tasks w)(t \<mapsto> FtWaiting)"
  by (simp_all add: fo_opened_def)

lemma fo_command_frame [simp]:
  "fo_world (fo_command reconnect cmd cmds w) = fo_world w" "fo_cmds (fo_command reconnect cmd cmds w) = cmds"
  "fo_gone (fo_command reconnect cmd cmds w) = fo_gone w"
  "fo_map (fo_command reconnect (FcAdd k t) cmds w) = (fo_map w)(k \<mapsto> t)"
  "fo_map (fo_command reconnect (FcRemove k) cmds w) = (fo_map w)(k := None)"
  by (simp_all add: fo_command_def Let_def split: option.split)

lemma fo_command_tasks:
  "fo_map w k = None \<Longrightarrow> cmd = FcAdd k t \<or> cmd = FcRemove k \<Longrightarrow> fo_tasks (fo_command reconnect cmd cmds w) = fo_tasks w"
  "fo_map w k = Some t0 \<Longrightarrow> cmd = FcAdd k t \<or> cmd = FcRemove k \<Longrightarrow>
    fo_tasks (fo_command reconnect cmd cmds w) = (fo_tasks w)(t0 \<mapsto>
      (if t0 \<notin> w_cancelled (fo_world w) \<and> reconnect then FtOpening else FtReturned))"
  by (auto simp: fo_command_def Let_def)

lemma fo_stream_end_frame [simp]:
  "fo_world (fo_stream_end reconnect k t w) = fo_world w" "fo_map (fo_stream_end reconnect k t w) = (fo_map w)(k := None)"
  "fo_cmds (fo_stream_end reconnect k t w) = fo_cmds w"
  "fo_gone (fo_stream_end reconnect k t w) = (if reconnect then fo_gone w else insert t (fo_gone w))"
  "fo_tasks (fo_stream_end reconnect k t w) = (fo_tasks w)(t \<mapsto>
      (if t \<notin> w_cancelled (fo_world w) \<and> reconnect then FtOpening else FtReturned))"
  by (simp_all add: fo_stream_end_def)

text \<open>The two tasks of a key that is added, dropped and added again.\<close>

lemma readded_state:
  fixes k :: source_key and ctx :: watch_ctx
  defines "w1 \<equiv> fo_add k (fo_drop ctx k (fo_add k fo_init))"
  shows "tokens (fo_world w1) k = Some 1" and "w_spawned (fo_world w1) = [(k, 0), (k, 1)]"
    and "w_cancelled (fo_world w1) = {0}" and "fo_tasks w1 = [0 \<mapsto> FtOpening, 1 \<mapsto> FtOpening]"
    and "fo_cmds w1 = [FcRemove k]" and "fo_map w1 = Map.empty" and "fo_gone w1 = {}"
    and "k \<in> active (fo_world w1)"
  by (simp_all add: w1_def fo_add_def fo_drop_def fo_init_def world_new_def registry_new_def add_key_def drop_key_def)

lemma late_add_start_reachable: "fo_reachable ctx False (late_add_start ctx k)"
proof -
  define w1 where "w1 = fo_add k (fo_drop ctx k (fo_add k fo_init))"
  note w1 = readded_state [of k ctx, folded w1_def]
  let ?w2 = "fo_opened k 1 (fo_command False (FcRemove k) [] w1)"
  note step = FoStep [of ctx False]
  have "fo_reachable ctx False (fo_add k fo_init)" by (rule step [OF FoInit FoAdd])
  then have "fo_reachable ctx False (fo_drop ctx k (fo_add k fo_init))"
    by (rule step) (rule FoDrop; simp add: fo_add_def fo_init_def world_new_def registry_new_def add_key_def)
  then have "fo_reachable ctx False w1" unfolding w1_def by (rule step [OF _ FoAdd])
  then have "fo_reachable ctx False (fo_command False (FcRemove k) [] w1)"
    by (rule step) (rule FoCommand; simp add: w1 fo_command_tasks [of _ k])
  then have "fo_reachable ctx False ?w2" by (rule step) (rule FoOpened; simp add: w1 fo_command_tasks [of _ k])
  then have "fo_reachable ctx False (fo_command False (FcAdd k 1) [] ?w2)"
    by (rule step) (rule FoCommand; simp add: w1 fo_command_tasks [of _ k])
  then show ?thesis
    unfolding late_add_start_def Let_def w1_def [symmetric]
    by (rule step) (rule FoOpened; simp add: w1 fo_command_tasks [of _ k])
qed

lemma late_add_start_state:
  "tokens (fo_world (late_add_start ctx k)) k = Some 1" "fo_map (late_add_start ctx k) k = Some 1"
  "fo_cmds (late_add_start ctx k) = [FcAdd k 0]"
proof -
  define w1 where "w1 = fo_add k (fo_drop ctx k (fo_add k fo_init))"
  note w1 = readded_state [of k ctx, folded w1_def]
  show "tokens (fo_world (late_add_start ctx k)) k = Some 1" "fo_map (late_add_start ctx k) k = Some 1"
    "fo_cmds (late_add_start ctx k) = [FcAdd k 0]"
    by (simp_all add: late_add_start_def Let_def w1_def [symmetric]) (simp_all add: w1)
qed

text \<open>
  C13: without that proviso a wanted stream can be lost for good.  Whenever the multiplexer holds
  the stream of the live task of a key and takes another stream for this key, that stream comes
  from a task whose token was cancelled before it was handed over.  With cursor reconnect the
  live task then opens its stream again.  Without, it returns, and from then on, as long as the
  key is wanted, nothing serves it: its task stays returned without a stream, although no open
  failed and its source did not end, every stream queued or held under the key is a cancelled
  one, and adding the key again has no effect because it is active.
\<close>

theorem late_add_loses_live_stream:
  assumes "fo_reachable ctx reconnect w" and "tokens (fo_world w) k = Some t" and "fo_map w k = Some t"
    and "fo_cmds w = FcAdd k t0 # cmds"
  shows "t0 \<in> w_cancelled (fo_world w)
    \<and> (if reconnect then fo_tasks (fo_command reconnect (FcAdd k t0) cmds w) t = Some FtOpening
       else (\<forall>w'. fo_steps ctx reconnect (fo_command reconnect (FcAdd k t0) cmds w) w'
              \<and> tokens (fo_world w') k = Some t \<longrightarrow>
            fo_tasks w' t = Some FtReturned \<and> t \<notin> fo_gone w'
          \<and> (\<forall>t'. FcAdd k t' \<in> set (fo_cmds w') \<or> fo_map w' k = Some t' \<longrightarrow> t' \<in> w_cancelled (fo_world w'))
          \<and> fo_add k w' = w'))"
proof -
  let ?w1 = "fo_command reconnect (FcAdd k t0) cmds w"
  have ok: "fo_ok ctx w" by (rule fo_ok_reachable [OF assms(1)])
  then have world: "world_ok ctx (fo_world w)" and own: "owners_ok w" by (simp_all add: fo_ok_def)
  have "t0 \<noteq> t" using owners_okD(2) [OF own assms(3), of k] assms(4) by auto
  then have late: "t0 \<in> w_cancelled (fo_world w)" using others_cancelled [OF ok assms(2)] assms(4) by simp
  have live: "t \<notin> w_cancelled (fo_world w)" using world_okD(5) [OF world] assms(2) by blast
  have task: "fo_tasks ?w1 t = Some (if reconnect then FtOpening else FtReturned)"
    using live by (simp add: fo_command_tasks(2) [OF assms(3)])
  have r1: "fo_reachable ctx reconnect ?w1" by (rule FoStep [OF assms(1) FoCommand [OF assms(4)]])
  have lost: "fo_tasks w' t = Some FtReturned \<and> t \<notin> fo_gone w'
      \<and> (\<forall>t'. FcAdd k t' \<in> set (fo_cmds w') \<or> fo_map w' k = Some t' \<longrightarrow> t' \<in> w_cancelled (fo_world w'))
      \<and> fo_add k w' = w'"
    if "\<not> reconnect" and steps: "fo_steps ctx reconnect ?w1 w'" and wanted: "tokens (fo_world w') k = Some t" for w'
  proof -
    have ok': "fo_ok ctx w'" by (rule fo_ok_reachable [OF fo_steps_reachable [OF steps r1]])
    then have world': "world_ok ctx (fo_world w')" and own': "owners_ok w'" by (simp_all add: fo_ok_def)
    have "t \<notin> fo_gone w"
      using gone_returned [of ctx w t] assms(1) held_waits [OF own assms(3)] that(1) by auto
    then have ret: "fo_tasks w' t = Some FtReturned" "t \<notin> fo_gone w'"
      using returned_steps [OF steps r1, of t] task that(1) by simp_all
    have "\<not> in_hand w' k t" using owners_okD(3) [OF own', of k t] ret(1) by simp
    then have "\<forall>t'. FcAdd k t' \<in> set (fo_cmds w') \<or> fo_map w' k = Some t' \<longrightarrow> t' \<in> w_cancelled (fo_world w')"
      using others_cancelled [OF ok' wanted] unfolding in_hand_def by blast
    moreover have "k \<in> active (fo_world w')" using world_okD(2) [OF world'] wanted by auto
    ultimately show ?thesis using ret by (simp add: fo_add_def)
  qed
  show ?thesis using late task lost by (cases reconnect) simp_all
qed

theorem late_add_loses_live_stream_witness:
  "fo_tasks (late_add_run example_ctx example_key) 1 = Some FtReturned
   \<and> 1 \<notin> fo_gone (late_add_run example_ctx example_key)
   \<and> fo_cmds (late_add_run example_ctx example_key) = [] \<and> fo_map (late_add_run example_ctx example_key) example_key = None
   \<and> fo_add example_key (late_add_run example_ctx example_key) = late_add_run example_ctx example_key"
proof -
  let ?w1 = "fo_command False (FcAdd example_key 0) [] (late_add_start example_ctx example_key)"
  note start = late_add_start_state [of example_ctx example_key]
  have "fo_step example_ctx False ?w1 (late_add_run example_ctx example_key)"
    unfolding late_add_run_def by (rule FoStreamEnd) simp
  then have "fo_steps example_ctx False ?w1 (late_add_run example_ctx example_key)" by (rule r_into_rtranclp)
  moreover have "tokens (fo_world (late_add_run example_ctx example_key)) example_key = Some 1"
    by (simp add: late_add_run_def start)
  ultimately have "fo_tasks (late_add_run example_ctx example_key) 1 = Some FtReturned
      \<and> 1 \<notin> fo_gone (late_add_run example_ctx example_key)
      \<and> fo_add example_key (late_add_run example_ctx example_key) = late_add_run example_ctx example_key"
    using late_add_loses_live_stream [OF late_add_start_reachable start] unfolding if_False by blast
  moreover have "fo_cmds (late_add_run example_ctx example_key) = []"
    and "fo_map (late_add_run example_ctx example_key) example_key = None"
    by (simp_all add: late_add_run_def)
  ultimately show ?thesis by blast
qed

lemma example_served_reachable:
  "fo_reachable example_ctx True
     (fo_command True (FcAdd example_key 0) [] (fo_opened example_key 0 (fo_add example_key fo_init)))"
proof -
  have "fo_reachable example_ctx True (fo_add example_key fo_init)" by (rule FoStep [OF FoInit FoAdd])
  then have "fo_reachable example_ctx True (fo_opened example_key 0 (fo_add example_key fo_init))"
    by (rule FoStep) (rule FoOpened; simp add: fo_add_def fo_init_def world_new_def registry_new_def add_key_def)
  then show ?thesis
    by (rule FoStep) (rule FoCommand; simp add: fo_add_def fo_init_def world_new_def registry_new_def add_key_def)
qed

theorem live_stream_served_witness:
  "fo_tasks (fo_command True (FcAdd example_key 0) [] (fo_opened example_key 0 (fo_add example_key fo_init))) 0
       = Some FtOpening
   \<or> fo_map (fo_command True (FcAdd example_key 0) [] (fo_opened example_key 0 (fo_add example_key fo_init))) example_key
       = Some 0"
proof -
  let ?w = "fo_command True (FcAdd example_key 0) [] (fo_opened example_key 0 (fo_add example_key fo_init))"
  have "fo_late ?w = {}" "tokens (fo_world ?w) example_key = Some 0" "0 \<notin> fo_gone ?w" "fo_cmds ?w = []"
    by (simp_all add: fo_add_def fo_init_def world_new_def registry_new_def add_key_def fo_command_def
        fo_opened_def Let_def split: option.split)
  from live_stream_served [OF example_served_reachable this(1-3)] this(4) show ?thesis by simp
qed

theorem streams_have_owners_witness:
  "fo_map (fo_command True (FcAdd example_key 0) [] (fo_opened example_key 0 (fo_add example_key fo_init))) example_key
     = Some 0"
  using streams_have_owners [OF example_served_reachable, of example_key 0 example_key]
  by (simp add: fo_add_def fo_init_def world_new_def registry_new_def add_key_def fo_command_tasks [of _ example_key])

section \<open>The watch handlers are made of these steps\<close>

text \<open>The handlers of the watch loop drop and add streams one by one, as the steps do.\<close>

lemma drop_key_open [simp]: "w_mux_open (drop_key ctx k w) = w_mux_open w" "active (drop_key ctx k w) = active w - {k}"
  by (simp_all add: drop_key_def)

lemma steps_drop_keys:
  assumes "distinct ks" and "set ks \<subseteq> active (fo_world w)" and "w_mux_open (fo_world w)"
  shows "\<exists>w'. fo_steps ctx reconnect w w' \<and> fo_world w' = drop_keys ctx ks (fo_world w)"
  using assms
proof (induction ks arbitrary: w)
  case (Cons k ks)
  have world: "fo_world (fo_drop ctx k w) = drop_key ctx k (fo_world w)" by (simp add: fo_drop_def)
  have "fo_step ctx reconnect w (fo_drop ctx k w)" by (rule FoDrop) (use Cons.prems in simp_all)
  moreover have "\<exists>w'. fo_steps ctx reconnect (fo_drop ctx k w) w'
      \<and> fo_world w' = drop_keys ctx ks (fo_world (fo_drop ctx k w))"
    by (rule Cons.IH) (use Cons.prems in \<open>auto simp: world\<close>)
  ultimately show ?case unfolding world drop_keys_simps by (meson converse_rtranclp_into_rtranclp)
qed auto

lemma steps_add_keys:
  "\<exists>w'. fo_steps ctx reconnect w w' \<and> fo_world w' = fold add_key ks (fo_world w)"
proof (induction ks arbitrary: w)
  case (Cons k ks)
  have "fo_world (fo_add k w) = add_key k (fo_world w)" by (simp add: fo_add_def add_key_def)
  with Cons [of "fo_add k w"] FoAdd [of ctx reconnect w k] show ?case
    by (metis converse_rtranclp_into_rtranclp fold_simps(2))
qed auto

lemma steps_apply_diff:
  assumes "finite current" and "finite desired" and "current \<subseteq> active (fo_world w)" and "w_mux_open (fo_world w)"
  shows "\<exists>w'. fo_steps ctx reconnect w w'
    \<and> fo_world w' = apply_diff ctx (reconcile current desired) (fo_world w)"
proof -
  let ?d = "reconcile current desired"
  obtain w1 where w1: "fo_steps ctx reconnect w w1" "fo_world w1 = drop_keys ctx (rd_to_drop ?d) (fo_world w)"
    using steps_drop_keys [of "rd_to_drop ?d" w ctx reconnect] reconcile_sets [OF assms(1,2)] assms(3,4) by auto
  obtain w2 where "fo_steps ctx reconnect w1 w2" "fo_world w2 = fold add_key (rd_to_add ?d) (fo_world w1)"
    using steps_add_keys by blast
  with w1 show ?thesis unfolding apply_diff_def by (metis rtranclp_trans)
qed

lemma steps_caches:
  assumes "world_ok ctx (fo_world w)" and "sharded_invar (wc_meta_hash ctx) m"
  shows "fo_step ctx reconnect w (w\<lparr>fo_world := (fo_world w)\<lparr>w_meta := m, w_pending := ps\<rparr>\<rparr>)"
  using FoCaches [OF assms(2) world_okD(7) [OF assms(1)], of reconnect w ps] by simp

lemma pending_before_meta:
  "(w :: world)\<lparr>w_pending := ps, w_meta := m\<rparr> = w\<lparr>w_meta := m, w_pending := ps\<rparr>"
  by simp

lemma steps_caches_only:
  assumes "world_ok ctx (fo_world w)" and "sharded_invar (wc_meta_hash ctx) m"
  shows "\<exists>w'. fo_steps ctx reconnect w w' \<and> fo_world w' = (fo_world w)\<lparr>w_meta := m, w_pending := ps\<rparr>"
proof -
  note step = steps_caches [OF assms, of reconnect ps]
  show ?thesis
    by (rule exI [of _ "w\<lparr>fo_world := (fo_world w)\<lparr>w_meta := m, w_pending := ps\<rparr>\<rparr>"])
      (simp add: r_into_rtranclp [of "fo_step ctx reconnect", OF step])
qed

text \<open>Changing the caches first, then reconciling: what every handler does.\<close>

lemma steps_via:
  assumes "world_ok ctx (fo_world w)" and "sharded_invar (wc_meta_hash ctx) m"
    and "\<And>w1. fo_world w1 = (fo_world w)\<lparr>w_meta := m, w_pending := ps\<rparr> \<Longrightarrow>
      \<exists>w'. fo_steps ctx reconnect w1 w' \<and> fo_world w' = f (fo_world w1)"
  shows "\<exists>w'. fo_steps ctx reconnect w w' \<and> fo_world w' = f ((fo_world w)\<lparr>w_meta := m, w_pending := ps\<rparr>)"
proof -
  let ?w1 = "w\<lparr>fo_world := (fo_world w)\<lparr>w_meta := m, w_pending := ps\<rparr>\<rparr>"
  obtain w' where "fo_steps ctx reconnect ?w1 w'" "fo_world w' = f (fo_world ?w1)"
    using assms(3) [of ?w1] by auto
  then show ?thesis using steps_caches [OF assms(1,2), of reconnect ps]
    by (intro exI [of _ w'] conjI converse_rtranclp_into_rtranclp [of _ w ?w1]) simp_all
qed

lemma distinct_keys_for_pod_locator: "distinct (keys_for_pod_locator ctx ns nm uid w)"
  by (simp add: keys_for_pod_locator_def hash_iter_def)

lemma watch_event_steps:
  assumes "world_ok ctx (fo_world w)" and "w_mux_open (fo_world w)"
  shows "\<exists>w'. fo_steps ctx reconnect w w' \<and> fo_world w' = handle_event ctx ev (fo_world w)"
proof -
  let ?W = "fo_world w"
  note fin = world_okD(1) [OF assms(1)] and m = world_okD(6) [OF assms(1)]
  have pending: "?W\<lparr>w_meta := m', w_pending := w_pending ?W\<rparr> = ?W\<lparr>w_meta := m'\<rparr>" for m' by simp
  have "\<exists>w'. fo_steps ctx reconnect w w' \<and> fo_world w' = remove_pod ctx p
      (?W\<lparr>w_meta := meta_remove_pod (wc_meta_hash ctx) (ctx_name ctx) p (w_meta ?W), w_pending := w_pending ?W\<rparr>)" for p
  proof (rule steps_via [OF assms(1) meta_remove_pod(1) [OF m]])
    fix w1 :: follow assume w1: "fo_world w1 = ?W\<lparr>w_meta := meta_remove_pod (wc_meta_hash ctx) (ctx_name ctx) p (w_meta ?W),
      w_pending := w_pending ?W\<rparr>"
    show "\<exists>w'. fo_steps ctx reconnect w1 w' \<and> fo_world w' = remove_pod ctx p (fo_world w1)"
      unfolding remove_pod_def
      by (rule steps_drop_keys [OF distinct_keys_for_pod_locator])
        (use fin assms(2) in \<open>auto simp: w1 keys_for_pod_locator_set\<close>)
  qed
  then have delete: "\<exists>w'. fo_steps ctx reconnect w w' \<and> fo_world w' = on_delete ctx p ?W" for p
    unfolding on_delete_def pending .
  show ?thesis
  proof (cases ev)
    case (EvDelete p)
    then show ?thesis using delete by simp
  next
    case (EvApply p)
    let ?m = "update_from_pod (wc_meta_hash ctx) (ctx_name ctx) p (w_meta ?W)"
    have "\<exists>w'. fo_steps ctx reconnect w w'
        \<and> fo_world w' = reconcile_pod ctx p (set (admit_streams (wc_admission ctx) p))
          (?W\<lparr>w_meta := ?m, w_pending := w_pending ?W\<rparr>)"
    proof (rule steps_via [OF assms(1) update_from_pod(1) [OF m]])
      fix w1 :: follow assume w1: "fo_world w1 = ?W\<lparr>w_meta := ?m, w_pending := w_pending ?W\<rparr>"
      show "\<exists>w'. fo_steps ctx reconnect w1 w'
          \<and> fo_world w' = reconcile_pod ctx p (set (admit_streams (wc_admission ctx) p)) (fo_world w1)"
        unfolding reconcile_pod_def Let_def
        by (rule steps_apply_diff) (use fin assms(2) in \<open>auto simp: w1 keys_for_pod_locator_set\<close>)
    qed
    then show ?thesis using delete EvApply unfolding pending by (simp add: on_apply_def)
  next
    case EvInit
    show ?thesis unfolding EvInit handle_event.simps on_init_begin_def pending_before_meta
      by (rule steps_caches_only [OF assms(1) meta_clear(1) [OF m]])
  next
    case (EvInitApply p)
    show ?thesis unfolding EvInitApply handle_event.simps on_init_apply_def
      by (rule steps_caches_only [OF assms(1) update_from_pod(1) [OF m]])
  next
    case EvInitDone
    let ?snap = "collect_snapshot (wc_admission ctx) (w_pending ?W)"
    let ?m = "meta_prune (from_source_key ` ?snap)
      (fold (update_from_pod (wc_meta_hash ctx) (ctx_name ctx)) (w_pending ?W) (w_meta ?W))"
    have "\<exists>w'. fo_steps ctx reconnect w w'
        \<and> fo_world w' = reconcile_snapshot ctx ?snap (?W\<lparr>w_meta := ?m, w_pending := []\<rparr>)"
    proof (rule steps_via [OF assms(1)])
      show "sharded_invar (wc_meta_hash ctx) ?m" using meta_prune(1) update_all m by blast
      fix w1 :: follow assume w1: "fo_world w1 = ?W\<lparr>w_meta := ?m, w_pending := []\<rparr>"
      show "\<exists>w'. fo_steps ctx reconnect w1 w' \<and> fo_world w' = reconcile_snapshot ctx ?snap (fo_world w1)"
        unfolding reconcile_snapshot_def
        by (rule steps_apply_diff) (use fin assms(2) in \<open>auto simp: w1\<close>)
    qed
    moreover have "on_init_done ctx ?W = reconcile_snapshot ctx ?snap (?W\<lparr>w_meta := ?m, w_pending := []\<rparr>)"
      by (simp add: on_init_done_def on_init_snapshot_def Let_def pending_before_meta)
    ultimately show ?thesis using EvInitDone by simp
  qed
qed
end
