(* ===== verification/Log_Source.thy ===== *)
theory Log_Source
  imports Attach
begin

text \<open>
  A pod log as a source (\<open>PodLogSource::start\<close> in \<open>source/pod_log.rs\<close>, behind the opener of
  \<open>source/log_opener.rs\<close>), and the attach task of a key on top of it (\<open>spawn_attach_pod_log\<close> in
  \<open>runtime/attach.rs\<close>).  Parameters are chrono's parser and addition, the answer of the API
  server to each try of a log request (an error, or what the reads of the body will yield, the
  cancellation of the pod's token included), and the draw of the jitter.
\<close>

section \<open>Opening a source\<close>

record log_api =
  la_parse_rfc3339 :: "string \<Rightarrow> timestamp option"
  la_checked_add :: "timestamp \<Rightarrow> int \<Rightarrow> timestamp option"
  la_log_stream :: "string \<Rightarrow> string \<Rightarrow> log_params \<Rightarrow> nat \<Rightarrow> kube_error + read_outcome list"
  la_draw :: "u64 \<Rightarrow> u64"

record pod_log_source =
  src_meta :: source_meta
  src_items :: "item list"
  src_status :: stream_status

definition pod_log_source_start ::
  "log_api \<Rightarrow> source_meta \<Rightarrow> pod_log_request \<Rightarrow> log_source_error + pod_log_source" where
  "pod_log_source_start api meta req =
     (let params = build_log_params meta req in
      bind_result
        (fst (log_stream_with_retry (la_log_stream api (sm_namespace meta) (sm_pod meta) params) (la_draw api) 3))
        (\<lambda>reads. case pod_log_stream (la_parse_rfc3339 api) (la_checked_add api) meta reads of
           (items, status) \<Rightarrow> Inr \<lparr>src_meta = meta, src_items = items, src_status = status\<rparr>))"

text \<open>The opener of a run boxes the source it starts.\<close>

definition log_source_open ::
  "log_api \<Rightarrow> source_meta \<Rightarrow> pod_log_request \<Rightarrow> log_source_error + pod_log_source" where
  "log_source_open api meta req = bind_result (pod_log_source_start api meta req) Inr"

section \<open>The attach task of a key\<close>

text \<open>A round of the task with the API server it meets in that round.\<close>

definition with_opener ::
  "source_meta \<Rightarrow> log_api \<times> pod_log_source attach_env \<Rightarrow> pod_log_source attach_env" where
  "with_opener meta r = (case r of (api, env) \<Rightarrow> env\<lparr>ae_open := log_source_open api meta\<rparr>)"

definition spawn_attach_pod_log ::
  "(pod_locator \<Rightarrow> u64) \<Rightarrow> (string \<Rightarrow> u64) \<Rightarrow> context_name \<Rightarrow> pod_meta_cache \<Rightarrow> color_assign_opts \<Rightarrow>
     attach_params \<Rightarrow> (log_api \<times> pod_log_source attach_env) list \<Rightarrow> pod_log_source attach_action list \<times> bool" where
  "spawn_attach_pod_log hash sea context cache color_opts p rounds =
     (let meta = source_meta_for_key hash sea context cache (ap_key p) color_opts
      in attach_loop p (map (with_opener meta) rounds) attach_init)"

section \<open>What the task hands to the multiplexer\<close>

definition source_of :: "source_meta \<Rightarrow> pod_log_source \<Rightarrow> bool" where
  "source_of meta src \<longleftrightarrow>
     src_meta src = meta
     \<and> list_all (\<lambda>x. case x of Inl e \<Rightarrow> (case e of Api _ \<Rightarrow> True | _ \<Rightarrow> False)
                            | Inr ev \<Rightarrow> ev_source ev = meta \<and> utf8_valid (ev_message ev)) (src_items src)"

lemma log_source_open_source_of:
  assumes "log_source_open api meta req = Inr src"
  shows "source_of meta src"
proof -
  obtain reads where src: "src = \<lparr>src_meta = meta,
      src_items = fst (pod_log_stream (la_parse_rfc3339 api) (la_checked_add api) meta reads),
      src_status = snd (pod_log_stream (la_parse_rfc3339 api) (la_checked_add api) meta reads)\<rparr>"
    using assms unfolding log_source_open_def pod_log_source_start_def Let_def
    by (auto simp: bind_result_Inr_iff case_prod_unfold)
  show ?thesis
    using pod_log_unfold_events [of _ "la_parse_rfc3339 api" "la_checked_add api" meta False ts_resolver_default reads]
    unfolding source_of_def src pod_log_stream_def list_all_iff
    by (fastforce simp: mk_log_event_def split: sum.split)
qed

lemma attach_round_adds:
  assumes "attach_round p env st = (acts, r)" and "AddToMux k src \<in> set acts"
  shows "k = ap_key p \<and> (\<exists>req. ae_open env req = Inr src)"
  using assms
  by (auto simp: attach_round_def Let_def split: if_splits sum.splits option.splits stream_end.splits)

lemma attach_loop_adds:
  assumes "AddToMux k src \<in> set (fst (attach_loop p envs st))"
  shows "k = ap_key p \<and> (\<exists>env \<in> set envs. \<exists>req. ae_open env req = Inr src)"
  using assms
proof (induction p envs st rule: attach_loop.induct)
  case (2 p env envs st)
  obtain acts r where round: "attach_round p env st = (acts, r)" by fastforce
  show ?case
  proof (cases r)
    case None
    with 2 round show ?thesis using attach_round_adds [OF round] by auto
  next
    case (Some st')
    show ?thesis
    proof (cases "AddToMux k src \<in> set acts")
      case True
      then show ?thesis using attach_round_adds [OF round] by auto
    next
      case False
      then show ?thesis using 2 round Some by (cases "attach_loop p envs st'") auto
    qed
  qed
qed simp

text \<open>
  C24: whatever the API server answers and however often the stream is reopened, every source
  that an attach task hands to the multiplexer is filed under the task's own key; it yields only
  API errors and events, and every event carries the metadata of that key (its context,
  namespace, pod, container and uid, and the node and labels the metadata cache had when the
  task was spawned) and a message that is valid UTF-8.
\<close>

theorem attached_events_carry_key:
  "list_all (\<lambda>act. case act of
       AddToMux k src \<Rightarrow>
         k = ap_key p
         \<and> source_of (source_meta_for_key hash sea context cache (ap_key p) color_opts) src
         \<and> sm_context (src_meta src) = context \<and> sm_namespace (src_meta src) = sk_namespace (ap_key p)
         \<and> sm_pod (src_meta src) = sk_pod (ap_key p) \<and> sm_container (src_meta src) = sk_container (ap_key p)
         \<and> sm_uid (src_meta src) = sk_uid (ap_key p)
         \<and> sm_node (src_meta src) = snap_node (meta_lookup hash cache (ap_key p))
         \<and> sm_labels (src_meta src) = snap_labels (meta_lookup hash cache (ap_key p))
     | _ \<Rightarrow> True)
   (fst (spawn_attach_pod_log hash sea context cache color_opts p rounds))"
proof -
  let ?meta = "source_meta_for_key hash sea context cache (ap_key p) color_opts"
  have meta: "sm_context ?meta = context" "sm_namespace ?meta = sk_namespace (ap_key p)"
    "sm_pod ?meta = sk_pod (ap_key p)" "sm_container ?meta = sk_container (ap_key p)"
    "sm_uid ?meta = sk_uid (ap_key p)" "sm_node ?meta = snap_node (meta_lookup hash cache (ap_key p))"
    "sm_labels ?meta = snap_labels (meta_lookup hash cache (ap_key p))"
    by (simp_all add: source_meta_for_key_def apply_palette_to_meta_def Let_def split: option.split)
  have "k = ap_key p \<and> source_of ?meta src"
    if "AddToMux k src \<in> set (fst (spawn_attach_pod_log hash sea context cache color_opts p rounds))" for k src
    using attach_loop_adds [of k src p "map (with_opener ?meta) rounds" attach_init] that
    by (auto simp: spawn_attach_pod_log_def Let_def with_opener_def dest: log_source_open_source_of)
  then have add: "k = ap_key p" "source_of ?meta src" "src_meta src = ?meta"
    if "AddToMux k src \<in> set (fst (spawn_attach_pod_log hash sea context cache color_opts p rounds))" for k src
    using that by (auto simp: source_of_def)
  show ?thesis
    unfolding list_all_iff by (auto simp: meta add split: attach_action.split)
qed

end
