(* ===== verification/Reporters.thy ===== *)
theory Reporters
  imports Render Mux
begin

text \<open>
  The periodic tasks of a run: the reporter of the statistics windows (\<open>RunStats::stderr_reporter\<close>
  in \<open>runtime/forward.rs\<close>), the drop summary (\<open>LossyMetrics::cumulative_reporter\<close>, same file) and
  the flush ticker (\<open>render/mod.rs\<close>).  Each is a select between the root token and a ticker; the
  sequence of what it meets is given, together with what the other tasks do to the shared
  counters in between.
\<close>

section \<open>The statistics reporter\<close>

text \<open>The outcome of the two writes and the flush of one report: all go well, or the report's
  text, its newline, or the flush fails.\<close>

datatype report_io = IoOk | IoLineFails | IoNewlineFails | IoFlushFails

datatype report_wake = RwCancelled | RwTick report_io | RwOther stats_op

text \<open>What is written to standard error, the counters at the end, and whether the task has ended.\<close>

fun stderr_reporter :: "string \<Rightarrow> report_wake list \<Rightarrow> run_stats \<Rightarrow> string list \<times> run_stats \<times> bool" where
  "stderr_reporter interval [] s = ([], s, False)"
| "stderr_reporter interval (RwCancelled # wakes) s = ([], s, True)"
| "stderr_reporter interval (RwOther oper # wakes) s = stderr_reporter interval wakes (snd (stats_run [oper] s))"
| "stderr_reporter interval (RwTick io # wakes) s =
     (case format_window interval s of
        (line, s') \<Rightarrow>
          (case io of
             IoLineFails \<Rightarrow> ([], s', True)
           | IoNewlineFails \<Rightarrow> ([line], s', True)
           | IoFlushFails \<Rightarrow> ([line @ [newline]], s', True)
           | IoOk \<Rightarrow>
               (case stderr_reporter interval wakes s' of
                  (out, s'', ended) \<Rightarrow> ((line @ [newline]) # out, s'', ended))))"

text \<open>The operations on the counters the reporter lives to see, its own reports included.\<close>

fun reported_ops :: "report_wake list \<Rightarrow> stats_op list" where
  "reported_ops [] = []"
| "reported_ops (RwCancelled # wakes) = []"
| "reported_ops (RwOther oper # wakes) = oper # reported_ops wakes"
| "reported_ops (RwTick io # wakes) = StReport # (if io = IoOk then reported_ops wakes else [])"

text \<open>Nobody else takes windows.\<close>

fun only_reporter :: "report_wake \<Rightarrow> bool" where
  "only_reporter (RwOther oper) \<longleftrightarrow> oper \<noteq> StReport"
| "only_reporter _ \<longleftrightarrow> True"

lemma stats_run_flags:
  "rs_lossy (snd (stats_run ops s)) = rs_lossy s \<and> rs_mux_lossy (snd (stats_run ops s)) = rs_mux_lossy s"
  by (induction ops s rule: stats_run.induct)
    (auto simp: runtime_simps snapshot_and_reset_def split: prod.split)

lemma stats_run_Cons:
  "stats_run (oper # ops) s =
     (case stats_run [oper] s of (ws1, s1) \<Rightarrow> (case stats_run ops s1 of (ws2, s2) \<Rightarrow> (ws1 @ ws2, s2)))"
  by (cases oper) (simp_all split: prod.split)

lemma stats_run_no_window: "oper \<noteq> StReport \<Longrightarrow> fst (stats_run [oper] s) = []"
  by (cases oper) simp_all

fun written :: "report_wake \<Rightarrow> bool" where
  "written (RwTick io) \<longleftrightarrow> io = IoOk \<or> io = IoFlushFails"
| "written _ \<longleftrightarrow> True"

definition window_line :: "string \<Rightarrow> run_stats \<Rightarrow> run_stats_snapshot \<Rightarrow> string" where
  "window_line interval s w = format_snapshot w interval (rs_lossy s) (rs_mux_lossy s) @ [newline]"

lemma window_line_flags:
  "window_line interval (snd (stats_run ops s)) = window_line interval s"
  using stats_run_flags [of ops s] by (simp add: window_line_def fun_eq_iff)

lemma stats_run_report:
  "stats_run (StReport # ops) s =
     (case stats_run ops (snd (snapshot_and_reset s)) of (ws, s2) \<Rightarrow> (fst (snapshot_and_reset s) # ws, s2))"
  by (simp add: case_prod_unfold)

lemma snapshot_flags: "window_line interval (snd (snapshot_and_reset s)) = window_line interval s"
  by (simp add: window_line_def snapshot_and_reset_def fun_eq_iff)

lemma format_window_line:
  "format_window interval s = (line, s') \<Longrightarrow>
   line @ [newline] = window_line interval s (fst (snapshot_and_reset s)) \<and> s' = snd (snapshot_and_reset s)"
  by (auto simp: format_window_def window_line_def split: prod.splits)

text \<open>
  C40: the statistics reporter prints every window once: for every interleaving of its ticks with
  the other tasks' updates, with failing writes and cancellation anywhere, what standard error
  holds is the beginning of the lines of the windows taken, in order, one per tick up to the
  reporter's end, and all of them if no write failed; and the counters end as the same sequence
  of operations leaves them.
\<close>

theorem stderr_reporter_exact:
  assumes "list_all only_reporter wakes"
  shows "let (out, s', ended) = stderr_reporter interval wakes s;
             (windows, s2) = stats_run (reported_ops wakes) s;
             lines = map (window_line interval s) windows
         in s' = s2 \<and> prefix (concat out) (concat lines) \<and> (list_all written wakes \<longrightarrow> out = lines)"
  using assms
proof (induction interval wakes s rule: stderr_reporter.induct)
  case (3 interval oper wakes s)
  then show ?case
    using stats_run_no_window [of oper s]
    by (subst reported_ops.simps, subst stats_run_Cons)
      (auto simp: Let_def case_prod_unfold window_line_flags)
next
  case (4 interval io wakes s)
  obtain line s1 where w: "format_window interval s = (line, s1)" by fastforce
  note line = format_window_line [OF w]
  show ?case
  proof (cases "io = IoOk")
    case True
    from line have l: "window_line interval s (fst (snapshot_and_reset s)) = line @ [newline]"
      and s1: "snd (snapshot_and_reset s) = s1" by simp_all
    have flags: "window_line interval s1 = window_line interval s"
      using snapshot_flags [of interval s] by (simp add: s1)
    show ?thesis
      using "4.IH" [OF w [symmetric] True] "4.prems" True
      by (simp add: Let_def case_prod_unfold w stats_run_report l s1 flags)
  next
    case False
    have "prefix line (window_line interval s (fst (snapshot_and_reset s)))"
      using line by (metis prefixI)
    with False line show ?thesis
      by (cases io) (simp_all add: Let_def case_prod_unfold w stats_run_report)
  qed
qed (simp_all add: Let_def)

text \<open>One report at start, a forwarded line, a report that reaches the terminal, and one that does not.\<close>

theorem stderr_reporter_exact_witness:
  "prefix (concat (fst (stderr_reporter ''1s'' [RwTick IoOk, RwOther StForwarded, RwTick IoLineFails]
       (with_mux_policy False BpBlocking))))
     (''stats: active streams=0, forwarded lines=0/1s'' @ newline
        # ''stats: active streams=0, forwarded lines=1/1s'' @ [newline])"
proof -
  let ?wakes = "[RwTick IoOk, RwOther StForwarded, RwTick IoLineFails]" and ?s = "with_mux_policy False BpBlocking"
  have lines: "concat (map (window_line ''1s'' ?s) (fst (stats_run (reported_ops ?wakes) ?s)))
    = ''stats: active streams=0, forwarded lines=0/1s'' @ newline
        # ''stats: active streams=0, forwarded lines=1/1s'' @ [newline]"
    by code_simp
  show ?thesis
    using stderr_reporter_exact [of ?wakes "''1s''" ?s] unfolding lines [symmetric]
    by (simp add: Let_def case_prod_unfold)
qed

section \<open>The drop summary\<close>

datatype drop_wake = DwCancelled | DwTick | DwDropped u64

text \<open>The totals logged, the counters at the end, and whether the task has ended.\<close>

fun cumulative_reporter :: "drop_wake list \<Rightarrow> counters \<Rightarrow> u64 list \<times> counters \<times> bool" where
  "cumulative_reporter [] c = ([], c, False)"
| "cumulative_reporter (DwCancelled # wakes) c = ([], c, True)"
| "cumulative_reporter (DwDropped now_ms # wakes) c = cumulative_reporter wakes (snd (record_drop now_ms c))"
| "cumulative_reporter (DwTick # wakes) c =
     (case cumulative_tick c of
        (summary, c') \<Rightarrow>
          (case cumulative_reporter wakes c' of
             (logged, c'', ended) \<Rightarrow>
               ((case summary of Some n \<Rightarrow> n # logged | None \<Rightarrow> logged), c'', ended)))"

fun drops_seen :: "drop_wake list \<Rightarrow> nat" where
  "drops_seen [] = 0"
| "drops_seen (DwCancelled # wakes) = 0"
| "drops_seen (DwDropped _ # wakes) = Suc (drops_seen wakes)"
| "drops_seen (DwTick # wakes) = drops_seen wakes"

text \<open>The summaries and what is left in the counter add up to the drops (modulo \<open>2 ^ 64\<close>), and no
  summary is empty.\<close>

lemma drop_summaries_exact:
  "(case cumulative_reporter wakes c of (logged, c', ended) \<Rightarrow>
      sum_list logged + ct_dropped_total c' = ct_dropped_total c + of_nat (drops_seen wakes)
    \<and> 0 \<notin> set logged)"
proof (induction wakes c rule: cumulative_reporter.induct)
  case (3 now_ms wakes c)
  then show ?case
    by (auto simp: record_drop_def Let_def case_prod_unfold algebra_simps split: if_splits)
next
  case (4 wakes c)
  then show ?case
    by (auto simp: cumulative_tick_def Let_def case_prod_unfold word_gt_0 split: if_splits)
qed simp_all

section \<open>The flush ticker\<close>

text \<open>What the select meets: the cancelled root token, or a tick with the state of the render
  channel.  The commands that got into the channel, and whether the task has ended.\<close>

fun flush_ticker :: "(bool \<times> channel_state) list \<Rightarrow> render_command list \<times> bool" where
  "flush_ticker [] = ([], False)"
| "flush_ticker ((cancelled, chan) # wakes) =
     (if cancelled then ([], True)
      else case flush_ticker wakes of
        (cmds, ended) \<Rightarrow> ((if chan = ChanOk then RFlush # cmds else cmds), ended))"

text \<open>The ticker sends nothing but flushes, and flushes that succeed change nothing of the output.\<close>

lemma flush_ticker_sends_flushes: "set (fst (flush_ticker wakes)) \<subseteq> {RFlush}"
  by (induction wakes rule: flush_ticker.induct) (auto split: prod.splits)

lemma rendered_lines_flushes:
  "rendered_lines (filter (\<lambda>c. c \<noteq> (RFlush, None)) cmds) = rendered_lines cmds"
proof (induction cmds)
  case (Cons c cmds)
  obtain cmd io where "c = (cmd, io)" by fastforce
  with Cons show ?case by (cases io; cases cmd) simp_all
qed simp

lemma flushes_harmless:
  "rt_out (fst (render_task fmt io (map (filter (\<lambda>c. c \<noteq> (RFlush, None))) batches) render_init))
     = rt_out (fst (render_task fmt io batches render_init))"
  by (simp add: render_task_out rendered_lines_flushes [of "concat batches", symmetric] filter_concat)

end
