(* ===== verification/Shutdown.thy ===== *)
theory Shutdown
  imports Run
begin

text \<open>
  The assembly of a run's tasks (\<open>MuxForwardCore::spawn\<close> in \<open>runtime/mux_forward_core.rs\<close> and
  \<open>CursorService::spawn\<close> in \<open>runtime/cursor_service.rs\<close>), and their shutdown at the end of
  \<open>run_with_client\<close> (\<open>runtime/run.rs\<close>): which tasks are joined, in which order, and how long
  that takes.  Times are in milliseconds; how the tasks behave is the environment.
\<close>

section \<open>Assembly\<close>

record cursor_service =
  cs_store :: cursor_store
  cs_enabled :: bool
  cs_processor :: bool

definition cursor_service_spawn :: "bool \<Rightarrow> cursor_service" where
  "cursor_service_spawn enabled =
     \<lparr>cs_store = cursor_store_new, cs_enabled = enabled, cs_processor = enabled\<rparr>"

definition should_reconnect :: "cursor_service \<Rightarrow> bool" where
  "should_reconnect cs \<longleftrightarrow> cs_enabled cs"

text \<open>
  What is spawned for a run: the capacities of its three channels, the policies of its two
  sending tasks, the shared counters, the interval of the statistics reporter if there is one,
  the period of the flush ticker, and the formatter of the render task if there is one.
\<close>

record mux_forward_core =
  mf_mux_capacity :: nat
  mf_raw_capacity :: nat
  mf_render_capacity :: nat
  mf_mux_policy :: backpressure_policy
  mf_lossy :: bool
  mf_pipeline :: pipeline_stages
  mf_counters :: counters
  mf_stats_reporter :: "nat option"
  mf_flush_interval_ms :: nat
  mf_render_task :: "line_formatter option"

definition mux_forward_core_spawn ::
  "pipeline_stages \<Rightarrow> runtime_fwd_config \<Rightarrow> line_formatter option \<Rightarrow> run_stats option \<Rightarrow> mux_forward_core" where
  "mux_forward_core_spawn pipeline fwd_cfg formatter stats =
     (let stats = (case stats of Some s \<Rightarrow> s | None \<Rightarrow> from_fwd fwd_cfg)
      in \<lparr>mf_mux_capacity = mux_channel_capacity, mf_raw_capacity = raw_channel_capacity fwd_cfg,
          mf_render_capacity = render_channel_capacity fwd_cfg, mf_mux_policy = resolved_mux_policy fwd_cfg,
          mf_lossy = fwd_lossy fwd_cfg, mf_pipeline = pipeline,
          mf_counters = (counters_new fwd_cfg)\<lparr>ct_stats := stats\<rparr>,
          mf_stats_reporter = fwd_stats fwd_cfg, mf_flush_interval_ms = 50,
          mf_render_task = formatter\<rparr>)"

definition core_of_run :: "core_run_config \<Rightarrow> prepared_run \<Rightarrow> mux_forward_core" where
  "core_of_run cfg pr = mux_forward_core_spawn (pr_pipeline pr) (cfg_fwd cfg) (Some (pr_formatter pr)) None"

text \<open>The counters a run starts with are those its forward task is given in \<open>forward_of\<close>.\<close>

lemma core_of_run_counters:
  "mf_counters (core_of_run cfg pr) = counters_new (cfg_fwd cfg)"
  "mf_render_task (core_of_run cfg pr) = Some (pr_formatter pr)"
  "mf_pipeline (core_of_run cfg pr) = pr_pipeline pr" "mf_lossy (core_of_run cfg pr) = fwd_lossy (cfg_fwd cfg)"
  by (simp_all add: core_of_run_def mux_forward_core_spawn_def counters_new_def)

section \<open>Bounded joins\<close>

definition shutdown_timeout_ms :: nat where
  "shutdown_timeout_ms = 150"

text \<open>How a task behaves once the root token is cancelled: whether it is finished already, after
  which time it returns by itself and after which time it has been aborted, if ever, each with
  its result.\<close>

record task_exit =
  te_finished :: bool
  te_returns :: "nat option"
  te_result :: "join_error option"
  te_aborts :: "nat option"
  te_abort_result :: "join_error option"

definition join_wake_of :: "task_exit \<Rightarrow> join_wake" where
  "join_wake_of te =
     (if te_finished te then JoinAtOnce (te_result te)
      else case te_returns te of
        Some d \<Rightarrow> if d < shutdown_timeout_ms then JoinInTime (te_result te)
                  else (case te_aborts te of
                          Some a \<Rightarrow> if a < shutdown_timeout_ms then JoinAborted (te_abort_result te) else JoinNever
                        | None \<Rightarrow> JoinNever)
      | None \<Rightarrow> (case te_aborts te of
                   Some a \<Rightarrow> if a < shutdown_timeout_ms then JoinAborted (te_abort_result te) else JoinNever
                 | None \<Rightarrow> JoinNever))"

definition abort_ms :: "task_exit \<Rightarrow> nat" where
  "abort_ms te = (case te_aborts te of Some a \<Rightarrow> min a shutdown_timeout_ms | None \<Rightarrow> shutdown_timeout_ms)"

definition join_ms :: "task_exit \<Rightarrow> nat" where
  "join_ms te =
     (if te_finished te then 0
      else case te_returns te of
        Some d \<Rightarrow> if d < shutdown_timeout_ms then d else shutdown_timeout_ms + abort_ms te
      | None \<Rightarrow> shutdown_timeout_ms + abort_ms te)"

lemma join_ms_le: "join_ms te \<le> 2 * shutdown_timeout_ms"
  by (auto simp: join_ms_def abort_ms_def split: option.split)

section \<open>The shutdown of a run\<close>

datatype run_task = TWatch | TMux | TPipeline | TCursor | TMetricsReporter | TStatsReporter | TFlushTicker | TRender

text \<open>The tasks that are joined before the render task, in order.\<close>

definition joined_tasks :: "bool \<Rightarrow> bool \<Rightarrow> bool \<Rightarrow> bool \<Rightarrow> run_task list" where
  "joined_tasks follow pipe_joined track_cursors stats =
     (if follow then [TWatch] else []) @ [TMux] @ (if pipe_joined then [] else [TPipeline])
       @ (if track_cursors then [TCursor] else []) @ [TMetricsReporter]
       @ (if stats then [TStatsReporter] else []) @ [TFlushTicker]"

text \<open>\<open>send_ms\<close> is the time until the render channel has room for the shutdown command, if ever.\<close>

definition shutdown_ms ::
  "bool \<Rightarrow> bool \<Rightarrow> bool \<Rightarrow> bool \<Rightarrow> (run_task \<Rightarrow> task_exit) \<Rightarrow> nat option \<Rightarrow> nat" where
  "shutdown_ms follow pipe_joined track_cursors stats exits send_ms =
     sum_list (map (\<lambda>t. join_ms (exits t)) (joined_tasks follow pipe_joined track_cursors stats))
       + (case send_ms of Some d \<Rightarrow> min d shutdown_timeout_ms | None \<Rightarrow> shutdown_timeout_ms)
       + join_ms (exits TRender)"

definition pipe_joined_in_wait :: "run_wait \<Rightarrow> bool" where
  "pipe_joined_in_wait wt = (case wt of WaitOneShot (Some _) \<Rightarrow> True | _ \<Rightarrow> False)"

definition run_shutdown_ms ::
  "core_run_config \<Rightarrow> run_wait \<Rightarrow> (run_task \<Rightarrow> task_exit) \<Rightarrow> nat option \<Rightarrow> nat" where
  "run_shutdown_ms cfg wt exits send_ms =
     shutdown_ms (plr_follow (cfg_pod_log cfg)) (pipe_joined_in_wait wt)
       (should_track_cursors (cfg_cursor_reconnect cfg) (plr_follow (cfg_pod_log cfg)))
       (fwd_stats (cfg_fwd cfg) \<noteq> None) exits send_ms"

lemma sum_list_bounded: "(\<And>x. x \<in> set xs \<Longrightarrow> f x \<le> (b :: nat)) \<Longrightarrow> sum_list (map f xs) \<le> length xs * b"
  by (induction xs) (auto simp: add_mono)

lemma joined_tasks_length:
  "length (joined_tasks follow pipe_joined track_cursors stats)
     = 3 + of_bool follow + of_bool (\<not> pipe_joined) + of_bool track_cursors + of_bool stats"
  by (simp add: joined_tasks_def)

text \<open>
  C23: a run always ends: however its tasks behave once the root token is cancelled, even if none
  of them ever returns or lets itself be aborted, the shutdown takes at most 2550 milliseconds,
  and at most 1650 in a one-shot run whose pipeline was joined while waiting; every task is
  joined at most once and the streams' side (watch, mux, pipeline) before the others.
\<close>

theorem shutdown_bounded:
  "run_shutdown_ms cfg wt exits send_ms
        \<le> (if pipe_joined_in_wait wt \<and> plr_follow (cfg_pod_log cfg) = False then 1650 else 2550)
   \<and> (let tasks = joined_tasks (plr_follow (cfg_pod_log cfg)) (pipe_joined_in_wait wt)
            (should_track_cursors (cfg_cursor_reconnect cfg) (plr_follow (cfg_pod_log cfg)))
            (fwd_stats (cfg_fwd cfg) \<noteq> None)
      in distinct tasks \<and> TRender \<notin> set tasks
       \<and> list_all (\<lambda>t. t \<in> {TWatch, TMux, TPipeline})
            (take (length (filter (\<lambda>t. t \<in> {TWatch, TMux, TPipeline}) tasks)) tasks))"
proof -
  let ?tasks = "joined_tasks (plr_follow (cfg_pod_log cfg)) (pipe_joined_in_wait wt)
            (should_track_cursors (cfg_cursor_reconnect cfg) (plr_follow (cfg_pod_log cfg)))
            (fwd_stats (cfg_fwd cfg) \<noteq> None)"
  have joins: "sum_list (map (\<lambda>t. join_ms (exits t)) ?tasks) \<le> length ?tasks * 300"
    using join_ms_le by (intro sum_list_bounded) (simp add: shutdown_timeout_ms_def)
  have send: "(case send_ms of Some d \<Rightarrow> min d shutdown_timeout_ms | None \<Rightarrow> shutdown_timeout_ms) \<le> 150"
    by (simp add: shutdown_timeout_ms_def split: option.split)
  have render: "join_ms (exits TRender) \<le> 300" using join_ms_le [of "exits TRender"] by (simp add: shutdown_timeout_ms_def)
  have total: "run_shutdown_ms cfg wt exits send_ms \<le> length ?tasks * 300 + 150 + 300"
    using joins send render unfolding run_shutdown_ms_def shutdown_ms_def by linarith
  moreover have "length ?tasks \<le> 7" "plr_follow (cfg_pod_log cfg) \<or> \<not> pipe_joined_in_wait wt \<or> length ?tasks \<le> 4"
    by (auto simp: joined_tasks_length should_track_cursors_def)
  moreover have "distinct ?tasks \<and> TRender \<notin> set ?tasks
      \<and> list_all (\<lambda>t. t \<in> {TWatch, TMux, TPipeline})
           (take (length (filter (\<lambda>t. t \<in> {TWatch, TMux, TPipeline}) ?tasks)) ?tasks)"
    by (simp add: joined_tasks_def)
  ultimately show ?thesis by (auto simp: Let_def)
qed

text \<open>The joins of the result and of the time are those of the same behaviour.\<close>

lemma join_in_time_no_abort:
  "join_ms te < shutdown_timeout_ms \<Longrightarrow> shutdown_join_bounded (join_wake_of te) = te_result te"
  by (auto simp: join_ms_def join_wake_of_def split: option.splits if_splits)

end
