(* ===== verification/Reopen.thy ===== *)
theory Reopen
  imports Attach
begin

text \<open>
  What cursor reconnect promises: the attach loop of \<open>runtime/attach.rs\<close> together with the
  tracked streams and the cursor task of \<open>runtime/cursor_service.rs\<close> and
  \<open>runtime/cursor_store.rs\<close>, over the log of one container.
\<close>

section \<open>An attach task, its streams and its cursor\<close>

text \<open>
  What one round meets: the environment of \<open>attach_round\<close>, whose open gives the sequence of polls
  that the stream will answer until it ends or is dropped; how many of the updates sent so far
  the cursor task has applied at the task's \<open>i\<close>-th look at the store; the updates that other
  streams have sent since the last round; and whether the pod's token is cancelled when the
  stream is dropped.  The stores and the one-shot channel of the environment are not free:
  they are what the cursor task and the tracking stream make of these.
\<close>

type_synonym polls = "(bool \<times> item option poll) list"

record reopen_wake =
  rw_env :: "polls attach_env"
  rw_looks :: "nat \<Rightarrow> nat"
  rw_others :: "cursor_update list"
  rw_cancelled_drop :: bool

text \<open>The store once the cursor task has applied these updates.\<close>

definition store_after :: "(source_key \<Rightarrow> u64) \<Rightarrow> cursor_update list \<Rightarrow> cursor_store" where
  "store_after hash updates =
     run_cursor_update_processor hash (map (\<lambda>u. (False, Some u)) updates) cursor_store_new"

definition tracked :: "attach_params \<Rightarrow> polls \<Rightarrow> tracked_stream" where
  "tracked p polls = fst (poll_all polls (track (ap_reconnect p) (ap_key p)))"

definition stores_seen :: "attach_params \<Rightarrow> reopen_wake \<Rightarrow> cursor_update list \<Rightarrow> nat \<Rightarrow> cursor_store" where
  "stores_seen p w updates i = store_after (ap_hash p) (take (rw_looks w i) updates)"

definition request_of ::
  "attach_params \<Rightarrow> reopen_wake \<Rightarrow> attach_state \<Rightarrow> cursor_update list \<Rightarrow> pod_log_request" where
  "request_of p w st updates =
     reopen_request (ap_time p) (ap_hash p) (ap_reconnect p) (stores_seen p w updates) (ap_key p)
       (ap_pod_log p) (at_reopen st) (at_flush_target st)"

definition round_env ::
  "attach_params \<Rightarrow> reopen_wake \<Rightarrow> attach_state \<Rightarrow> cursor_update list \<Rightarrow> polls attach_env" where
  "round_env p w st updates =
     (rw_env w)
       \<lparr>ae_snaps := stores_seen p w updates,
        ae_done := (case ae_open (rw_env w) (request_of p w st updates) of
            Inl _ \<Rightarrow> None
          | Inr polls \<Rightarrow> ts_done (drop_stream (rw_cancelled_drop w) (tracked p polls)))\<rparr>"

definition streamed :: "polls attach_action list \<Rightarrow> polls list" where
  "streamed acts = List.map_filter (\<lambda>a. case a of AddToMux _ polls \<Rightarrow> Some polls | _ \<Rightarrow> None) acts"

text \<open>
  The task over its rounds: for every stream it handed over the request it was opened with and
  the events it delivered.
\<close>

fun reopen_run ::
  "attach_params \<Rightarrow> reopen_wake list \<Rightarrow> attach_state \<Rightarrow> cursor_update list \<Rightarrow>
     (pod_log_request \<times> log_event list) list" where
  "reopen_run p [] st updates = []"
| "reopen_run p (w # wakes) st updates =
     (let updates = updates @ filter (\<lambda>u. cu_key u \<noteq> ap_key p) (rw_others w);
          (acts, next) = attach_round p (round_env p w st updates) st
      in map (\<lambda>polls. (request_of p w st updates, ready_events polls)) (streamed acts)
         @ (case next of
              None \<Rightarrow> []
            | Some st' \<Rightarrow>
                reopen_run p wakes st' (updates @ concat (map (\<lambda>polls. ts_sent (tracked p polls)) (streamed acts)))))"

lemma streamed_simps [simp]:
  "streamed [] = []" "streamed (Open r # xs) = streamed xs" "streamed (Acquire # xs) = streamed xs"
  "streamed (Release # xs) = streamed xs" "streamed (NotifyLimit # xs) = streamed xs"
  "streamed (CancelRoot # xs) = streamed xs" "streamed (AddToMux k polls # xs) = polls # streamed xs"
  "streamed (Sleep d # xs) = streamed xs"
  by (simp_all add: streamed_def map_filter_def)

section \<open>The log and its server\<close>

text \<open>
  What the API server promises: the stream of a request is the end of the log from some line
  on, and with only a \<open>sinceTime\<close> from at most the first line of that time or later.  It may
  break off anywhere.
\<close>

definition serves :: "log_event list \<Rightarrow> pod_log_request \<Rightarrow> log_event list \<Rightarrow> bool" where
  "serves log r evs \<longleftrightarrow>
     list_ex (\<lambda>served. prefix evs served
       \<and> (case (plr_tail r, plr_since_seconds r, plr_since_time r) of
            (None, None, Some t) \<Rightarrow> suffix (filter (\<lambda>ev. t \<le> ev_timestamp ev) log) served
          | _ \<Rightarrow> True)) (suffixes log)"

definition server_ok :: "log_event list \<Rightarrow> reopen_wake \<Rightarrow> bool" where
  "server_ok log w \<longleftrightarrow>
     (\<forall>r. case ae_open (rw_env w) r of Inl _ \<Rightarrow> True | Inr polls \<Rightarrow> serves log r (ready_events polls))"

text \<open>chrono and jiff never turn a timestamp into a later one.\<close>

definition time_lib_ok :: "time_lib \<Rightarrow> bool" where
  "time_lib_ok tlib \<longleftrightarrow>
     (\<forall>t. (case tl_reparse tlib t of None \<Rightarrow> True | Some t' \<Rightarrow> t' \<le> t)
        \<and> (case tl_checked_sub tlib t cursor_reconnect_overlap of None \<Rightarrow> True | Some t' \<Rightarrow> t' \<le> t))"

text \<open>No stream was opened with the user's own request after a line had been delivered.\<close>

fun cursor_found :: "pod_log_request \<Rightarrow> bool \<Rightarrow> (pod_log_request \<times> log_event list) list \<Rightarrow> bool" where
  "cursor_found base seen [] \<longleftrightarrow> True"
| "cursor_found base seen ((r, evs) # segs) \<longleftrightarrow>
     (seen \<longrightarrow> r \<noteq> base) \<and> cursor_found base (seen \<or> evs \<noteq> []) segs"

text \<open>
  The lines shown have no gap: the log from the first line shown to the newest line shown has
  been shown completely.
\<close>

definition no_gap :: "log_event list \<Rightarrow> log_event list \<Rightarrow> bool" where
  "no_gap log evs \<longleftrightarrow>
     (\<exists>older whole newer. log = older @ whole @ newer \<and> take 1 whole = take 1 evs
        \<and> set whole \<subseteq> set evs \<and> set evs \<subseteq> set (older @ whole))"

section \<open>Facts of the parts\<close>

lemma store_after_cursor:
  assumes "cursor_get hash (store_after hash updates) key = Some c"
  shows "\<exists>u \<in> set updates. cu_key u = key \<and> cu_timestamp u = c"
proof -
  have "applied_updates (map (\<lambda>u. (False, Some u)) updates) = updates" for updates
    by (induction updates) simp_all
  then have "(case filter (\<lambda>u. cu_key u = key) updates of [] \<Rightarrow> cursor_get hash cursor_store_new key
       | us \<Rightarrow> Some (cu_timestamp (last us))) = Some c"
    using conjunct1 [OF cursor_processor_last [OF cursors.invar_new [of hash]],
        of "map (\<lambda>u. (False, Some u)) updates" key] assms
    by (simp add: store_after_def)
  moreover have "cursor_get hash cursor_store_new key = None" by (rule cursors.get_new)
  ultimately obtain u us where "filter (\<lambda>u. cu_key u = key) updates = u # us"
    and c: "cu_timestamp (last (u # us)) = c"
    by (auto split: list.splits)
  then have "last (u # us) \<in> set (filter (\<lambda>u. cu_key u = key) updates)" by (metis last_in_set list.discI)
  with c show ?thesis by auto
qed

lemma reopened_since:
  assumes "time_lib_ok tlib" and "reopen_request tlib hash enabled snaps key base reopen target \<noteq> base"
  shows "\<exists>i c s. cursor_get hash (snaps i) key = Some c \<and> s \<le> c
    \<and> reopen_request tlib hash enabled snaps key base reopen target
      = base\<lparr>plr_tail := None, plr_since_seconds := None, plr_since_time := Some s\<rparr>"
proof -
  let ?i = "if reopen \<and> enabled then wait_cursor_flushed hash snaps key target else 0"
  let ?d = "\<lambda>c. unwrap_or c (tl_checked_sub tlib c cursor_reconnect_overlap)"
  from assms(2) have on: "reopen \<and> enabled" using reopen_request_first by blast
  with assms(2) obtain c s where c: "cursor_get hash (snaps ?i) key = Some c" and s: "tl_reparse tlib (?d c) = Some s"
    by (auto simp: reopen_request_def pod_log_request_for_reopen_def pod_log_request_for_reopen_with_overlap_def
        overlap_since_time_def bind_eq_Some_conv split: option.splits)
  have "?d c \<le> c"
    using assms(1) [unfolded time_lib_ok_def, rule_format, of c] by (auto split: option.splits)
  moreover have "s \<le> ?d c"
    using assms(1) [unfolded time_lib_ok_def, rule_format, of "?d c"] s by (auto split: option.splits)
  ultimately have "s \<le> c" by simp
  moreover have "reopen_request tlib hash enabled snaps key base reopen target
      = base\<lparr>plr_tail := None, plr_since_seconds := None, plr_since_time := Some s\<rparr>"
    using on c s by (simp add: reopen_request_def pod_log_request_for_reopen_def
        pod_log_request_for_reopen_with_overlap_def overlap_since_time_def)
  ultimately show ?thesis using c by blast
qed

lemma tracked_sent:
  "u \<in> set (ts_sent (tracked p polls)) \<Longrightarrow> cu_key u = ap_key p \<and> cu_timestamp u \<in> ev_timestamp ` set (ready_events polls)"
  using poll_all_frame [of polls "track (ap_reconnect p) (ap_key p)"]
  by (auto simp: tracked_def track_def split: if_splits)

text \<open>A round opens with the request computed from the stores it has seen, and hands over at most one stream.\<close>

lemma round_streamed:
  "streamed (fst (attach_round p (round_env p w st updates) st)) = []
   \<or> (\<exists>polls. streamed (fst (attach_round p (round_env p w st updates) st)) = [polls]
        \<and> ae_open (rw_env w) (request_of p w st updates) = Inr polls)"
  by (auto simp: attach_round_def round_env_def request_of_def Let_def split: sum.splits)

section \<open>Gaps\<close>

lemma no_gapI:
  assumes "log = older @ whole @ newer" and "take 1 whole = take 1 evs"
    and "set whole \<subseteq> set evs" and "set evs \<subseteq> set (older @ whole)"
  shows "no_gap log evs"
  using assms unfolding no_gap_def by blast

lemma no_gap_suffix:
  assumes "suffix served log" and "prefix evs served"
  shows "no_gap log evs"
proof -
  from assms obtain us rest where "log = us @ evs @ rest" by (auto simp: suffix_def prefix_def)
  then show ?thesis by (rule no_gapI) simp_all
qed

text \<open>
  A stream that starts no later than the newest line shown extends what is shown: with the new
  events the log is complete up to the newest line again.
\<close>

lemma no_gap_extend:
  assumes "log = older @ whole @ newer" and "set whole \<subseteq> set evs" and "set evs \<subseteq> set (older @ whole)"
    and "suffix newer served" and "suffix served log" and "prefix new served" and "take 1 whole = take 1 evs" and "evs \<noteq> []"
  shows "no_gap log (evs @ new)"
proof -
  obtain us where us: "served = us @ newer" using assms(4) by (auto simp: suffix_def)
  from assms(5) have "suffix us (older @ whole)" by (auto simp: assms(1) us suffix_def)
  then have us_old: "set us \<subseteq> set (older @ whole)" by (rule set_mono_suffix)
  have t: "take 1 (xs @ ys) = take 1 xs" if "xs \<noteq> []" for xs ys :: "log_event list"
    using that by (cases xs) simp_all
  have whole: "whole \<noteq> []" using assms(7,8) by (cases whole; cases evs) simp_all
  from assms(6) us consider "prefix new us" | fresh where "new = us @ fresh" "prefix fresh newer"
    by (auto simp: prefix_append)
  then show ?thesis
  proof cases
    case 1
    then have "set new \<subseteq> set (older @ whole)" using us_old set_mono_prefix by fast
    show ?thesis
    proof (rule no_gapI [OF assms(1)])
      show "take 1 whole = take 1 (evs @ new)" unfolding t [OF assms(8)] by (rule assms(7))
      show "set whole \<subseteq> set (evs @ new)" using assms(2) by auto
      show "set (evs @ new) \<subseteq> set (older @ whole)" using assms(3) \<open>set new \<subseteq> set (older @ whole)\<close> by simp
    qed
  next
    case 2
    then obtain rest where "newer = fresh @ rest" by (auto simp: prefix_def)
    then have log: "log = older @ (whole @ fresh) @ rest" by (simp add: assms(1))
    show ?thesis
    proof (rule no_gapI [OF log])
      show "take 1 (whole @ fresh) = take 1 (evs @ new)" unfolding t [OF assms(8)] t [OF whole] by (rule assms(7))
      show "set (whole @ fresh) \<subseteq> set (evs @ new)" using assms(2) 2(1) by auto
      show "set (evs @ new) \<subseteq> set (older @ whole @ fresh)" using assms(3) us_old 2(1) by auto
    qed
  qed
qed

lemma filter_sorted_suffix:
  assumes "sorted (map ev_timestamp (xs @ ys))" and "x \<in> set xs" and "t \<le> ev_timestamp x"
  shows "suffix ys (filter (\<lambda>ev. t \<le> ev_timestamp ev) (xs @ ys))"
proof -
  have "filter (\<lambda>ev. t \<le> ev_timestamp ev) ys = ys"
    using assms by (auto simp: sorted_append filter_id_conv intro: order_trans)
  then show ?thesis by (simp add: suffix_def)
qed

text \<open>The step of the argument: a stream reopened from a time at most that of a line shown.\<close>

lemma no_gap_step:
  assumes "sorted (map ev_timestamp log)" and "no_gap log evs" and "ev \<in> set evs" and "s \<le> ev_timestamp ev"
    and "serves log (base\<lparr>plr_tail := None, plr_since_seconds := None, plr_since_time := Some s\<rparr>) new"
  shows "no_gap log (evs @ new)"
proof -
  obtain older whole newer where g: "log = older @ whole @ newer" "take 1 whole = take 1 evs"
    "set whole \<subseteq> set evs" "set evs \<subseteq> set (older @ whole)"
    using assms(2) by (auto simp: no_gap_def)
  obtain served where sv: "suffix served log" "prefix new served"
    "suffix (filter (\<lambda>ev. s \<le> ev_timestamp ev) log) served"
    using assms(5) by (auto simp: serves_def list_ex_iff)
  have "suffix newer (filter (\<lambda>ev. s \<le> ev_timestamp ev) log)"
    using filter_sorted_suffix [of "older @ whole" newer ev s] assms(1,3,4) g(1,4) by auto
  then have "suffix newer served" using sv(3) suffix_order.trans by blast
  moreover have "evs \<noteq> []" using assms(3) by auto
  ultimately show ?thesis using no_gap_extend [OF g(1,3,4) _ sv(1,2) g(2)] by blast
qed

lemma no_gap_first:
  "serves log r evs \<Longrightarrow> no_gap log evs"
  using no_gap_suffix by (auto simp: serves_def list_ex_iff)

lemma reopen_run_no_gap:
  assumes "sorted (map ev_timestamp log)" and "time_lib_ok (ap_time p)" and "list_all (server_ok log) wakes"
    and "no_gap log evs" and "\<forall>u \<in> set updates. cu_key u = ap_key p \<longrightarrow> cu_timestamp u \<in> ev_timestamp ` set evs"
    and "cursor_found (ap_pod_log p) (evs \<noteq> []) (reopen_run p wakes st updates)"
  shows "no_gap log (evs @ concat (map snd (reopen_run p wakes st updates)))"
  using assms(3-)
proof (induction wakes arbitrary: st updates evs)
  case (Cons w wakes)
  let ?up = "updates @ filter (\<lambda>u. cu_key u \<noteq> ap_key p) (rw_others w)"
  let ?r = "request_of p w st ?up"
  obtain acts nxt where round: "attach_round p (round_env p w st ?up) st = (acts, nxt)" by fastforce
  have run: "reopen_run p (w # wakes) st updates = map (\<lambda>polls. (?r, ready_events polls)) (streamed acts)
      @ (case nxt of None \<Rightarrow> [] | Some st' \<Rightarrow>
           reopen_run p wakes st' (?up @ concat (map (\<lambda>polls. ts_sent (tracked p polls)) (streamed acts))))"
    by (simp add: round Let_def)
  have up: "\<forall>u \<in> set ?up. cu_key u = ap_key p \<longrightarrow> cu_timestamp u \<in> ev_timestamp ` set evs"
    using Cons.prems(3) by auto
  have ok: "list_all (server_ok log) wakes" using Cons.prems(1) by simp
  from round_streamed [of p w st ?up] round consider
    "streamed acts = []" | polls where "streamed acts = [polls]" "ae_open (rw_env w) ?r = Inr polls"
    by auto
  then show ?case
  proof cases
    case 1
    then show ?thesis
      using Cons.IH [OF ok Cons.prems(2) up] Cons.prems(2,4) unfolding run
      by (cases nxt) simp_all
  next
    case 2
    let ?new = "ready_events polls"
    have sv: "serves log ?r ?new"
      using Cons.prems(1) spec [of "\<lambda>r. case ae_open (rw_env w) r of Inl _ \<Rightarrow> True
          | Inr polls \<Rightarrow> serves log r (ready_events polls)" ?r] 2(2) by (simp add: server_ok_def)
    have found: "evs \<noteq> [] \<Longrightarrow> ?r \<noteq> ap_pod_log p" using Cons.prems(4) unfolding run 2(1) by simp
    have gap: "no_gap log (evs @ ?new)"
    proof (cases "evs = []")
      case True
      then show ?thesis using no_gap_first [OF sv] by simp
    next
      case False
      from reopened_since [OF assms(2) found [OF False, unfolded request_of_def]]
      obtain i c s where c: "cursor_get (ap_hash p) (stores_seen p w ?up i) (ap_key p) = Some c" "s \<le> c"
        and r: "?r = (ap_pod_log p)\<lparr>plr_tail := None, plr_since_seconds := None, plr_since_time := Some s\<rparr>"
        unfolding request_of_def by blast
      obtain u where u: "u \<in> set (take (rw_looks w i) ?up)" "cu_key u = ap_key p" "cu_timestamp u = c"
        using store_after_cursor [OF c(1) [unfolded stores_seen_def]] by blast
      have "c \<in> ev_timestamp ` set evs" using up [rule_format, OF in_set_takeD [OF u(1)] u(2)] u(3) by simp
      then obtain ev where ev: "ev \<in> set evs" "ev_timestamp ev = c" by blast
      show ?thesis by (rule no_gap_step [OF assms(1) Cons.prems(2) ev(1) _ sv [unfolded r]]) (simp add: ev(2) c(2))
    qed
    let ?up2 = "?up @ ts_sent (tracked p polls)"
    have up2: "\<forall>u \<in> set ?up2. cu_key u = ap_key p \<longrightarrow> cu_timestamp u \<in> ev_timestamp ` set (evs @ ?new)"
      unfolding set_append image_Un ball_Un
    proof (intro conjI ballI impI)
      show "cu_timestamp u \<in> ev_timestamp ` set evs \<union> ev_timestamp ` set ?new"
        if "u \<in> set updates" "cu_key u = ap_key p" for u
        using Cons.prems(3) that by blast
      show "cu_timestamp u \<in> ev_timestamp ` set evs \<union> ev_timestamp ` set ?new"
        if "u \<in> set (filter (\<lambda>u. cu_key u \<noteq> ap_key p) (rw_others w))" "cu_key u = ap_key p" for u
        using that by simp
      show "cu_timestamp u \<in> ev_timestamp ` set evs \<union> ev_timestamp ` set ?new"
        if "u \<in> set (ts_sent (tracked p polls))" for u
        using tracked_sent [OF that] by blast
    qed
    show ?thesis
    proof (cases nxt)
      case None
      then show ?thesis using gap unfolding run 2(1) by simp
    next
      case (Some st')
      have "cursor_found (ap_pod_log p) (evs @ ?new \<noteq> []) (reopen_run p wakes st' ?up2)"
        using Cons.prems(4) unfolding run 2(1) Some by (cases "evs = []") simp_all
      from Cons.IH [OF ok gap up2 this] show ?thesis unfolding run 2(1) Some by simp
    qed
  qed
qed simp

text \<open>
  C15: reopening leaves no gap: whatever streams break off where, however often, and however far
  behind the cursor task is, as long as no stream is reopened with the user's own request after
  a line has been delivered, the lines delivered contain every line of the container's log
  from the first line delivered to the newest one.
\<close>

theorem reopening_leaves_no_gap:
  assumes "sorted (map ev_timestamp log)" and "time_lib_ok (ap_time p)" and "list_all (server_ok log) wakes"
    and "cursor_found (ap_pod_log p) False (reopen_run p wakes attach_init [])"
  shows "no_gap log (concat (map snd (reopen_run p wakes attach_init [])))"
proof -
  have "no_gap log []" by (rule no_gapI [of log "[]" "[]" log]) simp_all
  from reopen_run_no_gap [OF assms(1-3) this, of "[]" attach_init] assms(4) show ?thesis by simp
qed

text \<open>A container of three lines whose stream breaks off after the first.\<close>

definition gap_meta :: source_meta where
  "gap_meta =
     \<lparr>sm_context = ''ctx'', sm_namespace = ''default'', sm_pod = ''web'', sm_container = ''app'', sm_kind = KPodLog,
      sm_node = None, sm_labels = [], sm_uid = ''u1'', sm_palette_index = None, sm_container_palette_index = None\<rparr>"

definition gap_line :: "int \<Rightarrow> log_event" where
  "gap_line n = mk_log_event gap_meta (n * 1000000000) ''line''"

definition gap_params :: attach_params where
  "gap_params =
     \<lparr>ap_key = SourceKey ''ctx'' ''default'' ''web'' ''app'' ''u1'',
      ap_pod_log = \<lparr>plr_follow = True, plr_tail = Some 1, plr_since_seconds = None, plr_since_time = None, plr_previous = False\<rparr>,
      ap_reconnect = True, ap_time = \<lparr>tl_checked_sub = (\<lambda>t d. Some (t - d)), tl_reparse = Some\<rparr>, ap_hash = (\<lambda>_. 0)\<rparr>"

definition gap_polls :: "log_event list \<Rightarrow> polls" where
  "gap_polls evs = map (\<lambda>ev. (False, Ready (Some (Inr ev)))) evs @ [(False, Ready None)]"

definition gap_wake :: "nat \<Rightarrow> (pod_log_request \<Rightarrow> log_event list) \<Rightarrow> reopen_wake" where
  "gap_wake looks answer =
     \<lparr>rw_env = \<lparr>ae_cancelled = False, ae_snaps = (\<lambda>_. cursor_store_new), ae_permit = True,
        ae_open = (\<lambda>r. Inr (gap_polls (answer r))), ae_mux_open = True, ae_done = None,
        ae_cancelled_after = False, ae_draw = id, ae_cancelled_in_sleep = False\<rparr>,
      rw_looks = (\<lambda>_. looks), rw_others = [], rw_cancelled_drop = False\<rparr>"

text \<open>The server's answers: when there is one line, and when there are three.\<close>

definition early_answer :: "pod_log_request \<Rightarrow> log_event list" where
  "early_answer r = [gap_line 1]"

definition late_answer :: "pod_log_request \<Rightarrow> log_event list" where
  "late_answer r = (if plr_tail r = Some 1 then [gap_line 3] else [gap_line 1, gap_line 2])"

abbreviation gap_log :: "log_event list" where
  "gap_log \<equiv> [gap_line 1, gap_line 2, gap_line 3]"

abbreviation gap_wakes :: "nat \<Rightarrow> reopen_wake list" where
  "gap_wakes looks \<equiv> [gap_wake 0 early_answer, gap_wake looks late_answer]"

lemma gap_time: "time_lib_ok (ap_time gap_params)"
  by (simp add: time_lib_ok_def gap_params_def cursor_reconnect_overlap_def)

lemma gap_log_sorted: "sorted (map ev_timestamp gap_log)"
  by (simp add: gap_line_def mk_log_event_def)

lemma gap_polls_events [simp]: "ready_events (gap_polls evs) = evs"
  by (induction evs) (simp_all add: gap_polls_def)

lemma gap_server: "list_all (server_ok gap_log) (gap_wakes looks)"
  by (auto simp: server_ok_def gap_wake_def serves_def early_answer_def late_answer_def gap_line_def
      mk_log_event_def suffix_def split: option.split)

text \<open>The first stream delivers its first line only.\<close>

abbreviation gap_reopened :: attach_state where
  "gap_reopened \<equiv> \<lparr>at_reopen = True, at_failures = 0, at_flush_target = Some 1000000000\<rparr>"

abbreviation gap_sent :: "cursor_update list" where
  "gap_sent \<equiv> [\<lparr>cu_key = ap_key gap_params, cu_timestamp = 1000000000\<rparr>]"

lemma gap_first_round:
  "attach_round gap_params (round_env gap_params (gap_wake 0 early_answer) attach_init []) attach_init
   = ([Acquire, Open (ap_pod_log gap_params), AddToMux (ap_key gap_params) (gap_polls [gap_line 1]), Release],
      Some gap_reopened)"
  by (simp add: attach_round_def round_env_def request_of_def reopen_request_first attach_init_def gap_wake_def
      gap_params_def tracked_def track_def poll_next_def finish_def end_reason_def drop_stream_def gap_line_def
      mk_log_event_def early_answer_def gap_polls_def)

lemma gap_first_sent: "ts_sent (tracked gap_params (gap_polls [gap_line 1])) = gap_sent"
  by (simp add: tracked_def track_def poll_next_def finish_def gap_params_def gap_line_def mk_log_event_def gap_polls_def)

lemma gap_run:
  assumes "request_of gap_params (gap_wake looks late_answer) gap_reopened gap_sent = r"
  shows "reopen_run gap_params (gap_wakes looks) attach_init []
    = [(ap_pod_log gap_params, [gap_line 1]), (r, late_answer r)]"
proof -
  have q: "request_of gap_params (gap_wake n answer) attach_init [] = ap_pod_log gap_params" for n answer
    by (simp add: request_of_def reopen_request_first attach_init_def)
  obtain acts nxt where second: "attach_round gap_params (round_env gap_params (gap_wake looks late_answer) gap_reopened gap_sent)
      gap_reopened = (acts, nxt)" by fastforce
  moreover have "streamed (fst (attach_round gap_params (round_env gap_params (gap_wake looks late_answer) gap_reopened gap_sent)
      gap_reopened)) = [gap_polls (late_answer r)]"
    unfolding assms [symmetric] by (auto simp: attach_round_def round_env_def gap_wake_def Let_def request_of_def)
  ultimately have "streamed acts = [gap_polls (late_answer r)]" by simp
  moreover have "rw_others (gap_wake n answer) = []" for n answer by (simp add: gap_wake_def)
  ultimately show ?thesis
    by (simp add: gap_first_round gap_first_sent second q assms Let_def split: option.split)
qed

text \<open>If the update has been applied when the task looks, the reopened stream starts at the cursor.\<close>

lemma gap_request_found:
  "request_of gap_params (gap_wake 1 answer) gap_reopened gap_sent
   = (ap_pod_log gap_params)\<lparr>plr_tail := None, plr_since_seconds := None, plr_since_time := Some 0\<rparr>"
proof -
  have "cursor_get hash (store_after hash gap_sent) (ap_key gap_params) = Some 1000000000" for hash
    using conjunct1 [OF cursor_processor_last [OF cursors.invar_new [of hash]],
        of "[(False, Some \<lparr>cu_key = ap_key gap_params, cu_timestamp = 1000000000\<rparr>)]" "ap_key gap_params"]
    by (simp add: store_after_def)
  then show ?thesis
    by (simp add: request_of_def reopen_request_def stores_seen_def gap_wake_def gap_params_def
        wait_cursor_flushed_def cursor_flush_retries_def
        pod_log_request_for_reopen_def pod_log_request_for_reopen_with_overlap_def overlap_since_time_def
        cursor_reconnect_overlap_def)
qed

theorem reopening_leaves_no_gap_witness:
  "no_gap gap_log (concat (map snd (reopen_run gap_params (gap_wakes 1) attach_init [])))
   \<and> concat (map snd (reopen_run gap_params (gap_wakes 1) attach_init [])) = [gap_line 1, gap_line 1, gap_line 2]"
proof
  note run = gap_run [OF gap_request_found]
  show "no_gap gap_log (concat (map snd (reopen_run gap_params (gap_wakes 1) attach_init [])))"
  proof (rule reopening_leaves_no_gap [OF gap_log_sorted gap_time gap_server])
    show "cursor_found (ap_pod_log gap_params) False (reopen_run gap_params (gap_wakes 1) attach_init [])"
      unfolding run by (simp add: gap_params_def)
  qed
  show "concat (map snd (reopen_run gap_params (gap_wakes 1) attach_init [])) = [gap_line 1, gap_line 1, gap_line 2]"
    unfolding run by (simp add: late_answer_def)
qed

section \<open>Reopening without the cursor\<close>












end
