(* ===== verification/Spec2Isabelle.thy ===== *)
theory Spec2Isabelle
  imports Containers Cli Run Progress Follow Log_Source Reporters Shutdown Reopen
begin

text \<open>
  A verification development for rustern, a tool that tails the logs of many Kubernetes pods.

  \<^bold>\<open>The program.\<close>  The command line (\<open>src/src/\<close>) is validated and mapped into a run configuration;
  \<open>run\<close> (\<open>runtime/run.rs\<close> of the crate \<open>rustern-core\<close>) compiles it, connects the tasks and waits.
  The watch task turns pod events into a set of wanted streams, one per container, and spawns
  an attach task for each.  An attach task opens the log, hands the stream to the multiplexer
  through a command channel and reopens it if asked to.  The multiplexer merges the streams into
  the raw channel; the forward task pulls the rows through the pipeline (filters, JSON, levels,
  jq, colours, exit triggers) into the render channel; the render task formats and writes them.
  A cursor task remembers the last timestamp of every stream.  All of it ends with the root
  token, which the exit triggers and signals cancel.

  \<^bold>\<open>How to read it.\<close>  Every theory models one part, with its state as a record, the source's enums as
  datatypes and one definition per function.  A \<open>Result\<close> is a sum (\<open>Inl\<close> is the error); \<open>u64\<close>,
  \<open>u32\<close> and \<open>u8\<close> are words; strings are lists of bytes in UTF-8; timestamps are nanoseconds.  A loop
  around \<open>select!\<close> is a recursion over the list of what its select meets in each turn, so a
  theorem for all lists is one for all schedules; tasks that share state are step relations.

  \<^item> \<open>Prelude\<close>, \<open>Rust_Str\<close>: results, collections of hints; the string functions of the Rust library
    (\<open>trim\<close>, \<open>split_once\<close>, UTF-8 decoding with replacement).
  \<^item> \<open>Source\<close>, \<open>Parsed_Json\<close>, \<open>Pod_Log\<close>, \<open>Log_Source\<close> (\<open>source/\<close>): events, keys and their order, the pod
    snapshot, level lookup in parsed lines, the log request, retries with capped jitter, line
    splitting, timestamps of undated lines, the event stream of a reader, and the source an attach
    task opens.  Shown: retries end after three tries; the items of a stream are exactly one event per
    line read and the error that ends it, with the stamps of undated lines; events carry the
    metadata of their key.
  \<^item> \<open>Stages\<close>, \<open>Stage_Contract\<close>, \<open>Pipeline\<close> (\<open>pipeline/\<close>, \<open>runtime/spec.rs\<close>): the stages as functions of one
    item and the exit watch; the locale \<open>stage_contract\<close> (errors pass, the origin of an event is
    kept, the exit watch only ever fires), interpreted for every stage and for the whole pipeline;
    the stage order and the exact output and triggers of a pipeline.
  \<^item> \<open>Containers\<close>, \<open>Resource\<close>, \<open>Run_Resolution\<close> (\<open>discovery/\<close>): the keys of a pod, \<open>--condition\<close>, the difference
    of two key sets, resource queries and workload selectors, the watch plan, namespaces and
    kubeconfig contexts with exec credentials.  Shown: which selectors and which namespaces a run uses.
  \<^item> \<open>Config\<close>, \<open>Cli\<close> (\<open>runtime/config.rs\<close>, \<open>runtime/list_pods.rs\<close>, \<open>src/src/\<close>): the run configuration, compiling
    the pipeline, the paginated list, the flags, their validation and mapping, and exit codes.
    Shown: valid flags give a configuration that compiles; what a run can still fail for.
  \<^item> \<open>Keyed_Store\<close>, \<open>Cursor_Store\<close>, \<open>Admission\<close> (\<open>runtime/cursor_store.rs\<close>, \<open>cursor_service.rs\<close>,
    \<open>watch_admission.rs\<close>, \<open>pod_meta_cache.rs\<close>): the locale \<open>keyed_store\<close> of a map with put, delete and
    retain, interpreted by the map of 16 shards and through it by both stores; the tracking stream,
    flushing and the reopen request; the admission of pods and containers.
  \<^item> \<open>Lifecycle\<close> (\<open>registry.rs\<close>, \<open>pod_lifecycle.rs\<close>, \<open>watch.rs\<close>): the watch loop over its events.  Shown: one live
    task per wanted stream in every reachable state, and refinement of a specification that
    computes the wanted streams from the events alone.
  \<^item> \<open>Attach\<close> (\<open>attach.rs\<close>): the attach loop round by round, reopening and its bounds, the semaphore
    as a step relation of its own, of whose steps the rounds are made (\<open>attach_round_pool\<close>).
  \<^item> \<open>Reopen\<close>: an attach task with its tracked streams, the cursor task and the log of its container.
    Shown: what is delivered has no gap, and that it gets one when the cursor comes after the last look.
  \<^item> \<open>Stats\<close>, \<open>Mux\<close>, \<open>Render\<close>, \<open>Forward\<close>, \<open>Reporters\<close> (\<open>forward.rs\<close>, \<open>mux.rs\<close>, \<open>render/\<close>): counters and report windows,
    the multiplexer over a \<open>StreamMap\<close>, formatters and the render task, the forward task, and the
    periodic tasks.  Shown: order and loss, what is counted, what is printed.
  \<^item> \<open>Oneshot\<close>, \<open>Progress\<close>: attach tasks and multiplexer of a \<open>--no-follow\<close> run, interleaved.  Shown: when the
    multiplexer returns, everything was delivered, and it can always return.
  \<^item> \<open>Follow\<close>: watch task, attach tasks and multiplexer of a following run, interleaved, with the owner
    of every stream.  Shown: wanted streams are served unless a task hands its stream over late,
    and what is lost whenever a late stream takes the place of a live one.  The handlers of \<open>Lifecycle\<close> are sequences
    of these steps (\<open>watch_event_steps\<close>).
  \<^item> \<open>Run\<close>, \<open>Shutdown\<close> (\<open>run.rs\<close>, \<open>mux_forward_core.rs\<close>): set-up and its errors, the wait, the bounded joins and the
    result; the assembly of the tasks; how long a shutdown takes.
  \<^item> This theory composes the parts from the streams to standard output: a one-shot run prints
    everything, and whatever happens to a run, what it printed was read, in order.

  \<^bold>\<open>Bounds and fuel.\<close>  Retries recurse on the tries left (3 per open), reopening on the rounds given (at
  most 5 failed ones in a row, \<open>failing_reopen_gives_up\<close>), the paginated list on 1000 pages, after
  which the code gives up with an error too, and the wait for the cursor on 16 looks.  No other
  recursion is bounded by anything but its input.

  \<^bold>\<open>Parameters.\<close>  Code that is not part of the repository is an argument of the definitions: regular
  expressions, jaq, \<open>serde_json\<close>, chrono and jiff, hashing, the random draw of the jitter, the
  API server, the kubeconfig reader, the exec plugin's process, terminal colours.  Where a
  property relies on their documented behaviour it says so in a hypothesis.

  \<^bold>\<open>Not modelled.\<close>  miette's handler (which \<open>report.rs\<close> installs and never uses), clap's parsing of
  the argument vector (its result is an argument of \<open>main_process\<close>), the wall clock and tokio's scheduler beyond what a select may meet, log
  messages of \<open>tracing\<close>, benches, tests and \<open>runtime/test_support.rs\<close>.  The output of the render task is what its
  \<open>BufWriter\<close> has taken, without the bytes of a line whose write fails half-way.  In \<open>Follow\<close> the rows of the
  streams, the semaphore and the capacity of the command channel are left out: a send that waits
  is a later step.
\<close>

section \<open>From the streams to standard output\<close>

text \<open>
  C3: a one-shot run prints everything: if the multiplexer has returned, neither cancelled nor
  deserted, if the forward task has seen the rows sent to it, undisturbed, up to the closed
  channel, with no row that fires an exit trigger, and if the render task was sent the lines it
  forwarded, then standard output is, line by line, what the formatter makes of what the
  pipeline makes of an interleaving of the complete streams.
\<close>

theorem one_shot_end_to_end:
  assumes "os_reachable BpBlocking keys c w" and "os_mux_done w" and "\<not> os_cancelled w" and "\<not> os_pipe_gone w"
    and "forward_to_render (apply_pipeline lib sea p) False wakes (fwd_init exit_watch_new c') = (s, True)"
    and "list_all calm wakes" and "channel_closes wakes"
    and "concat (map fw_arrived wakes) = sent (os_acts w)"
    and "\<not> list_ex (row_fires lib p) (sent (os_acts w))"
    and "rendered_lines (concat batches) = fs_sent s"
  shows "rt_out (fst (render_task fmt io batches render_init))
      = concat (map (format_line fmt)
          (ok_events (snd (run_stage (apply_pipeline lib sea p) exit_watch_new (taken (os_acts w))))))
    \<and> (\<forall>k. case os_tasks w k of
          None \<Rightarrow> taken_from k (os_acts w) = []
        | Some t \<Rightarrow> (case t of TkFailed \<Rightarrow> taken_from k (os_acts w) = []
                           | TkFinished stream \<Rightarrow> taken_from k (os_acts w) = stream | _ \<Rightarrow> False))"
proof -
  note os = os_complete [OF assms(1-4)]
  then have "sent (os_acts w) = taken (os_acts w)" by simp
  with forward_complete_pipeline [OF assms(5-7)] assms(8,9)
  have "fs_sent s = ok_events (snd (run_stage (apply_pipeline lib sea p) exit_watch_new (taken (os_acts w))))" by simp
  with os render_task_out [of fmt io batches] assms(10) show ?thesis by simp
qed

definition example_fwd_wake :: "item list \<Rightarrow> fwd_wake" where
  "example_fwd_wake rows =
     \<lparr>fw_cancelled = False, fw_arrived = rows, fw_closed = True, fw_cancelled_sending = False,
      fw_chan = ChanOk, fw_now_ms = 0\<rparr>"

lemma example_quiet: "\<not> event_fires (ru_json example_libs) (builder_build builder_default) example_event"
  by (simp add: event_fires_def builder_build_def builder_default_def)

lemma example_item:
  "apply_pipeline (ru_json example_libs) (ru_sea example_libs) (builder_build builder_default) w (Inr example_event)
   = (w, Some (Inr example_event))"
proof -
  have "event_out (ru_json example_libs) (ru_sea example_libs) (builder_build builder_default) example_event
      = Some example_event"
    by (simp add: event_out_def builder_build_def builder_default_def shown_def keep_line_def any_match_def
        transformed_def classified_def colored_def needs_color_assign_def needs_json_annotation_def)
  then show ?thesis by (simp add: apply_pipeline_item example_quiet)
qed

theorem one_shot_end_to_end_witness:
  "rt_out (fst (render_task (default_format_into example_render_lib example_plain) None
       [[(RLine example_event, None)], [(RFlush, None), (RShutdown, None)]] render_init))
     = ''web/app | hello'' @ [newline]"
proof -
  let ?p = "builder_build builder_default" and ?lib = "ru_json example_libs" and ?sea = "ru_sea example_libs"
  let ?wakes = "[example_fwd_wake [Inr example_event], example_fwd_wake []]"
  note item = example_item and quiet = example_quiet
  have sent: "sent (os_acts example_final) = [Inr example_event]" "taken (os_acts example_final) = [Inr example_event]"
    by (simp_all add: example_final_def)
  obtain s where fwd: "forward_to_render (apply_pipeline ?lib ?sea ?p) False ?wakes
      (fwd_init exit_watch_new example_counters) = (s, True)" and s: "fs_sent s = [example_event]"
    by (simp add: forward_iter_def fwd_init_def exit_watch_new_def example_fwd_wake_def item forward_item_def forwarded_def)
  let ?cmds = "[[(RLine example_event, None)], [(RFlush, None), (RShutdown, None)]]"
    and ?fmt = "default_format_into example_render_lib example_plain"
  have calm: "list_all calm ?wakes" "channel_closes ?wakes"
    and rows: "concat (map fw_arrived ?wakes) = sent (os_acts example_final)"
    by (simp_all add: calm_def example_fwd_wake_def sent)
  have quiet_rows: "\<not> list_ex (row_fires ?lib ?p) (sent (os_acts example_final))"
    by (simp add: sent row_fires_def quiet)
  have cmds: "rendered_lines (concat ?cmds) = fs_sent s" by (simp add: s)
  have final: "os_mux_done example_final" "\<not> os_cancelled example_final" "\<not> os_pipe_gone example_final"
    by (simp_all add: example_final_def)
  note printed = one_shot_end_to_end [OF example_final_reachable final fwd calm rows quiet_rows cmds, of ?fmt None]
  have "concat (map (format_line ?fmt)
      (ok_events (snd (run_stage (apply_pipeline ?lib ?sea ?p) exit_watch_new (taken (os_acts example_final))))))
    = ''web/app | hello'' @ [newline]"
    by (simp add: sent item example_plain_line)
  then show ?thesis by (rule trans [OF conjunct1 [OF printed]])
qed

section \<open>Whatever happens, what is printed was read\<close>

text \<open>
  C4: nothing is invented, repeated or reordered between the streams and standard output:
  however the multiplexer, the forward task and the render task are scheduled, cancelled,
  disconnected or cut off, and whatever commands, back pressure and failing writes they meet,
  standard output is the formatter's image of a list of lines.  Without \<open>--lossy\<close> this is an
  initial segment of what the pipeline makes of the rows taken from the streams before the
  first row that fires an exit trigger; with \<open>--lossy\<close> it is a subsequence of what the
  pipeline makes of all of them.  The rows taken from the streams of a key are initial segments
  of these streams, one after the other.
\<close>

theorem printed_lines_were_read:
  assumes "mux_multiplex_loop (from_lossy lossy) mwakes (mux_init c) = (acts, m, mret)"
    and "forward_to_render (apply_pipeline lib sea p) lossy wakes (fwd_init exit_watch_new c') = (s, fret)"
    and "prefix (concat (map fw_arrived wakes)) (sent acts)"
    and "prefix (rendered_lines (concat batches)) (fs_sent s)"
  shows "\<exists>lines. rt_out (fst (render_task fmt io batches render_init)) = concat (map (format_line fmt) lines)
    \<and> (if lossy
       then subseq lines (ok_events (snd (run_stage (apply_pipeline lib sea p) exit_watch_new (taken acts))))
       else prefix lines (ok_events (snd (run_stage (apply_pipeline lib sea p) exit_watch_new
              (takeWhile (\<lambda>r. \<not> row_fires lib p r) (taken acts))))))
    \<and> (\<forall>key. \<exists>ps. taken_from key acts = concat ps \<and> list_all2 prefix ps (attached key acts))"
proof (intro exI [of _ "rendered_lines (concat batches)"] conjI allI)
  let ?pass = "\<lambda>rows. ok_events (snd (run_stage (apply_pipeline lib sea p) exit_watch_new rows))"
  show "rt_out (fst (render_task fmt io batches render_init))
      = concat (map (format_line fmt) (rendered_lines (concat batches)))" by (rule render_task_out)
  show "\<exists>ps. taken_from key acts = concat ps \<and> list_all2 prefix ps (attached key acts)" for key
    by (rule taken_in_order(3) [OF assms(1)])
  show "if lossy then subseq (rendered_lines (concat batches)) (?pass (taken acts))
    else prefix (rendered_lines (concat batches)) (?pass (takeWhile (\<lambda>r. \<not> row_fires lib p r) (taken acts)))"
  proof (cases lossy)
    case True
    have "subseq (concat (map fw_arrived wakes)) (taken acts)"
      using assms(3) taken_in_order(1) [OF assms(1)] prefix_imp_subseq subseq_order.trans by blast
    then have "subseq (?pass (concat (map fw_arrived wakes))) (?pass (taken acts))"
      unfolding ok_events_closed by (rule subseq_map_filter)
    from subseq_order.trans [OF prefix_imp_subseq [OF assms(4)]
        subseq_order.trans [OF forwarded_in_order(1) [OF assms(2)] this]] True show ?thesis by simp
  next
    case False
    obtain pre where pre: "prefix pre (concat (map fw_arrived wakes))" "\<forall>r \<in> set pre. \<not> row_fires lib p r"
      "fs_sent s = ?pass pre"
      using forwarded_in_order(2) [OF assms(2) False] by blast
    have "prefix pre (taken acts)"
      using prefix_order.trans [OF pre(1) prefix_order.trans [OF assms(3) taken_in_order(2) [OF assms(1)]]] False
      by (simp add: from_lossy_def)
    then have "prefix pre (takeWhile (\<lambda>r. \<not> row_fires lib p r) (taken acts))"
      using prefix_takeWhile [OF _ pre(2)] by (metis prefixE)
    then have "prefix (fs_sent s) (?pass (takeWhile (\<lambda>r. \<not> row_fires lib p r) (taken acts)))"
      unfolding pre(3) by (rule run_stage_prefix)
    from prefix_order.trans [OF assms(4) this] False show ?thesis by simp
  qed
qed

text \<open>A stream of two rows, of which the multiplexer takes the first before it is cancelled.\<close>

definition example_mux_wake :: "mux_recv \<Rightarrow> mux_wake" where
  "example_mux_wake r =
     \<lparr>mw_cancelled = False, mw_recv = r, mw_ended = {}, mw_poll = Some example_key,
      mw_cancelled_sending = False, mw_chan = ChanOk\<rparr>"

theorem printed_lines_were_read_witness:
  "\<exists>lines. rt_out (fst (render_task (default_format_into example_render_lib example_plain) None
       [[(RLine example_event, None)]] render_init))
     = concat (map (format_line (default_format_into example_render_lib example_plain)) lines)
   \<and> prefix lines [example_event]"
proof -
  let ?p = "builder_build builder_default" and ?lib = "ru_json example_libs" and ?sea = "ru_sea example_libs"
  let ?row = "Inr example_event :: item" and ?fmt = "default_format_into example_render_lib example_plain"
  let ?mwakes = "[example_mux_wake (RecvCmd (MuxAdd example_key [?row, ?row])), example_mux_wake RecvPending,
      (example_mux_wake RecvPending)\<lparr>mw_cancelled := True\<rparr>]" and ?wakes = "[example_fwd_wake [?row]]"
  note item = example_item
  obtain m mret where mux: "mux_multiplex_loop (from_lossy False) ?mwakes (mux_init example_counters)
      = ([Attached example_key [?row, ?row], Took example_key ?row, SentRow ?row], m, mret)"
    by (simp add: example_mux_wake_def from_lossy_def mux_iter_def mux_command_def publish_active_def mux_init_def
        stream_map_next_def drop_ended_def)
  obtain s where fwd: "forward_to_render (apply_pipeline ?lib ?sea ?p) False ?wakes
      (fwd_init exit_watch_new example_counters) = (s, False)" and s: "fs_sent s = [example_event]"
    by (simp add: forward_iter_def fwd_init_def exit_watch_new_def example_fwd_wake_def item forward_item_def forwarded_def)
  have arrived: "prefix (concat (map fw_arrived ?wakes))
      (sent [Attached example_key [?row, ?row], Took example_key ?row, SentRow ?row])"
    by (simp add: example_fwd_wake_def)
  have cmds: "prefix (rendered_lines (concat [[(RLine example_event, None)]])) (fs_sent s)" by (simp add: s)
  have quiet: "\<not> row_fires ?lib ?p ?row" by (simp add: row_fires_def example_quiet)
  from printed_lines_were_read [OF mux fwd arrived cmds, of ?fmt None] show ?thesis
    by (auto simp: item quiet)
qed

end
